theory Spec2Isabelle
  imports Main "HOL-Library.AList"
begin

section \<open>The multiplayer room coordinator (socket module)\<close>

text \<open>
  The module keeps one process-wide registry \<open>rooms\<close> and registers seven handlers on
  every socket.io connection. Every handler runs to completion, so the model is a
  function from the state before an event to the state after it and the messages sent.
  Payloads have the types the handlers declare (strings, a number for \<open>clicks\<close>, an
  acknowledgement function for \<open>create_room\<close> and \<open>join_room\<close>); the number is an
  integer here.

  JavaScript objects used as dictionaries (\<open>rooms\<close>, \<open>playerStates\<close>) are association
  lists with distinct keys in insertion order: assigning an existing key replaces its
  value in place and assigning a new key appends it (\<open>AList.update\<close>).
\<close>

subsection \<open>Data model\<close>

record PlayerState =
  id_ps :: string
  name :: string
  clicks :: int
  currentArticle :: string
  history :: "string list"

datatype GameState = Waiting | Playing | Finished

record Room =
  id_room :: string
  players :: "string list"
  gameState :: GameState
  startArticle :: "string option"
  targetArticle :: "string option"
  playerStates :: "(string \<times> PlayerState) list"

text \<open>
  The state of the process: the registry, and the room membership that socket.io's
  adapter keeps (pairs of a socket.io room name and a socket id). \<open>socket.join(r)\<close> adds
  a pair; a socket has left all its socket.io rooms when its \<open>disconnect\<close> handler runs;
  every socket is a member of the socket.io room named by its own id from its connection.
\<close>

record server =
  rooms :: "(string \<times> Room) list"
  adapter :: "(string \<times> string) list"

definition init :: server where
  "init = \<lparr>rooms = [], adapter = []\<rparr>"

subsection \<open>Messages\<close>

text \<open>A roster entry \<open>{id, name}\<close> is a pair.\<close>

datatype ack =
    Created string "(string \<times> string) list"
  | Error string
  | Joined string "(string \<times> string) list"

datatype payload =
    PlayerJoined "(string \<times> string) list"
  | GameStarted string string
  | OpponentProgress string string string int
  | PlayerWon string string "string list"
  | ResetToLobby
  | PlayerLeft string "(string \<times> string) list"

text \<open>
  \<open>Callback sid a\<close> is the acknowledgement \<open>callback(a)\<close> to the calling socket,
  \<open>IoTo r p\<close> is \<open>io.to(r).emit(p)\<close> and \<open>SocketTo sid r p\<close> is
  \<open>socket.to(r).emit(p)\<close> on the socket \<open>sid\<close>.
\<close>

datatype emit =
    Callback string ack
  | IoTo string payload
  | SocketTo string string payload

fun recipients :: "(string \<times> string) list \<Rightarrow> emit \<Rightarrow> string set" where
  "recipients ad (Callback sid a) = {sid}"
| "recipients ad (IoTo r p) = {s. (r, s) \<in> set ad}"
| "recipients ad (SocketTo sid r p) = {s. (r, s) \<in> set ad} - {sid}"

text \<open>
  A handler either returns, with the new state and the messages in the order sent, or
  does not: \<open>TypeError\<close> is the uncaught exception of reading a property of
  \<open>undefined\<close>; \<open>BuiltinWrite\<close> marks an assignment to a property of one of the
  language's built-in objects, after which the model does not follow the process.
\<close>

datatype abort = TypeError | BuiltinWrite

type_synonym outcome = "abort + server \<times> emit list"

subsection \<open>Name generator\<close>

definition ADJECTIVES :: "string list" where
  "ADJECTIVES = [''Neon'', ''Cyber'', ''Mega'', ''Super'', ''Ultra'', ''Quantum'', ''Pixel'',
     ''Techno'', ''Retro'', ''Binary'']"

definition ANIMALS :: "string list" where
  "ANIMALS = [''Fox'', ''Owl'', ''Wolf'', ''Bear'', ''Cat'', ''Dog'', ''Hawk'', ''Eagle'',
     ''Shark'', ''Dragon'']"

text \<open>
  \<open>xs[i]\<close> inside a template literal: an index past the end reads \<open>undefined\<close>, printed
  as that word.
\<close>

definition pick :: "string list \<Rightarrow> nat \<Rightarrow> string" where
  "pick xs i = (if i < length xs then xs ! i else ''undefined'')"

text \<open>
  The two arguments are the values of \<open>Math.floor(Math.random() * ADJECTIVES.length)\<close>
  and \<open>Math.floor(Math.random() * ANIMALS.length)\<close>; each is below the length of its
  vocabulary.
\<close>

definition generateName :: "nat \<Rightarrow> nat \<Rightarrow> string" where
  "generateName i j = pick ADJECTIVES i @ '' '' @ pick ANIMALS j"

text \<open>\<open>username || generateName()\<close>: of the strings only the empty one is falsy.\<close>

definition playerName :: "string \<Rightarrow> nat \<Rightarrow> nat \<Rightarrow> string" where
  "playerName username i j = (if username = [] then generateName i j else username)"

subsection \<open>Looking a room up\<close>

text \<open>
  \<open>rooms\<close> is an object literal, so \<open>rooms[roomId]\<close> finds the registry's own entries and,
  for a name the registry does not hold, what \<open>Object.prototype\<close> defines under that
  name: a built-in function (for \<open>__proto__\<close> the prototype object itself). Such a value
  is truthy and has none of a room's fields. Room codes drawn by \<open>create_room\<close> are at
  most six characters of \<open>0-9A-Z\<close> and socket ids are drawn by socket.io; neither is one
  of these names, and \<open>playerStates\<close> is only ever indexed by socket ids.
\<close>

definition OBJECT_PROTOTYPE_KEYS :: "string list" where
  "OBJECT_PROTOTYPE_KEYS = [''constructor'', ''__proto__'', ''hasOwnProperty'',
     ''isPrototypeOf'', ''propertyIsEnumerable'', ''toLocaleString'', ''toString'',
     ''valueOf'', ''__defineGetter__'', ''__defineSetter__'', ''__lookupGetter__'',
     ''__lookupSetter__'']"

datatype room_lookup = Undefined | Builtin | Found Room

definition lookup_room :: "(string \<times> Room) list \<Rightarrow> string \<Rightarrow> room_lookup" where
  "lookup_room rs roomId =
     (case map_of rs roomId of
        Some room \<Rightarrow> Found room
      | None \<Rightarrow> if roomId \<in> set OBJECT_PROTOTYPE_KEYS then Builtin else Undefined)"

subsection \<open>Handlers\<close>

definition newPlayer :: "string \<Rightarrow> string \<Rightarrow> PlayerState" where
  "newPlayer sid nm =
     \<lparr>id_ps = sid, name = nm, clicks = 0, currentArticle = [], history = []\<rparr>"

text \<open>
  \<open>room.players.map(pid => ({id: pid, name: room.playerStates[pid].name}))\<close>: reading
  \<open>name\<close> of a missing entry throws.
\<close>

fun player_list :: "(string \<times> PlayerState) list \<Rightarrow> string list \<Rightarrow> (string \<times> string) list option" where
  "player_list ps [] = Some []"
| "player_list ps (pid # pids) =
     (case map_of ps pid of
        None \<Rightarrow> None
      | Some p \<Rightarrow> map_option ((#) (pid, name p)) (player_list ps pids))"

definition connection :: "server \<Rightarrow> string \<Rightarrow> outcome" where
  "connection s sid = Inr (s\<lparr>adapter := List.insert (sid, sid) (adapter s)\<rparr>, [])"

text \<open>\<open>roomId\<close> is the code drawn from \<open>Math.random()\<close>.\<close>

definition create_room :: "server \<Rightarrow> string \<Rightarrow> string \<Rightarrow> string \<Rightarrow> nat \<Rightarrow> nat \<Rightarrow> outcome" where
  "create_room s sid username roomId i j =
     (let nm = playerName username i j;
          room = \<lparr>id_room = roomId, players = [sid], gameState = Waiting,
                  startArticle = None, targetArticle = None,
                  playerStates = [(sid, newPlayer sid nm)]\<rparr>
      in Inr (\<lparr>rooms = AList.update roomId room (rooms s),
               adapter = List.insert (roomId, sid) (adapter s)\<rparr>,
              [Callback sid (Created roomId [(sid, nm)])]))"

definition join_room :: "server \<Rightarrow> string \<Rightarrow> string \<Rightarrow> string \<Rightarrow> nat \<Rightarrow> nat \<Rightarrow> outcome" where
  "join_room s sid roomId username i j =
     (case lookup_room (rooms s) roomId of
        Undefined \<Rightarrow> Inr (s, [Callback sid (Error ''Room not found'')])
      | Builtin \<Rightarrow> Inr (s, [Callback sid (Error ''Game already started'')])
      | Found room \<Rightarrow>
          if gameState room \<noteq> Waiting then
            Inr (s, [Callback sid (Error ''Game already started'')])
          else if length (players room) \<ge> 8 then
            Inr (s, [Callback sid (Error ''Room is full'')])
          else
            let nm = playerName username i j;
                room' = room\<lparr>players := players room @ [sid],
                              playerStates := AList.update sid (newPlayer sid nm) (playerStates room)\<rparr>
            in case player_list (playerStates room') (players room') of
                 None \<Rightarrow> Inl TypeError
               | Some allPlayers \<Rightarrow>
                   Inr (\<lparr>rooms = AList.update roomId room' (rooms s),
                         adapter = List.insert (roomId, sid) (adapter s)\<rparr>,
                        [Callback sid (Joined roomId allPlayers),
                         IoTo roomId (PlayerJoined allPlayers)]))"

text \<open>The \<open>forEach\<close> of \<open>start_game\<close>, one player id after the other.\<close>

fun reset_stats :: "string \<Rightarrow> string list \<Rightarrow> (string \<times> PlayerState) list \<Rightarrow> (string \<times> PlayerState) list" where
  "reset_stats start [] ps = ps"
| "reset_stats start (pid # pids) ps =
     reset_stats start pids
       (case map_of ps pid of
          None \<Rightarrow> ps
        | Some p \<Rightarrow> AList.update pid (p\<lparr>clicks := 0, currentArticle := start, history := [start]\<rparr>) ps)"

definition start_game :: "server \<Rightarrow> string \<Rightarrow> string \<Rightarrow> string \<Rightarrow> string \<Rightarrow> outcome" where
  "start_game s sid roomId start target =
     (case lookup_room (rooms s) roomId of
        Undefined \<Rightarrow> Inr (s, [])
      | Builtin \<Rightarrow> Inl TypeError
      | Found room \<Rightarrow>
          if length (players room) < 2 then Inr (s, [])
          else
            let room' = room\<lparr>startArticle := Some start, targetArticle := Some target,
                              gameState := Playing,
                              playerStates := reset_stats start (players room) (playerStates room)\<rparr>
            in Inr (s\<lparr>rooms := AList.update roomId room' (rooms s)\<rparr>,
                    [IoTo roomId (GameStarted start target)]))"

definition update_progress :: "server \<Rightarrow> string \<Rightarrow> string \<Rightarrow> string \<Rightarrow> int \<Rightarrow> outcome" where
  "update_progress s sid roomId article n =
     (case lookup_room (rooms s) roomId of
        Undefined \<Rightarrow> Inr (s, [])
      | Builtin \<Rightarrow> Inr (s, [])
      | Found room \<Rightarrow>
          if gameState room \<noteq> Playing then Inr (s, [])
          else
            (case map_of (playerStates room) sid of
               None \<Rightarrow> Inr (s, [])
             | Some player \<Rightarrow>
                 let player' = player\<lparr>currentArticle := article, clicks := n,
                                      history := history player @ [article]\<rparr>;
                     room' = room\<lparr>playerStates := AList.update sid player' (playerStates room)\<rparr>
                 in Inr (s\<lparr>rooms := AList.update roomId room' (rooms s)\<rparr>,
                         [SocketTo sid roomId (OpponentProgress sid (name player) article n)])))"

definition game_win :: "server \<Rightarrow> string \<Rightarrow> string \<Rightarrow> string list \<Rightarrow> outcome" where
  "game_win s sid roomId path =
     (case lookup_room (rooms s) roomId of
        Undefined \<Rightarrow> Inr (s, [])
      | Builtin \<Rightarrow> Inr (s, [])
      | Found room \<Rightarrow>
          if gameState room \<noteq> Playing then Inr (s, [])
          else
            (case map_of (playerStates room) sid of
               None \<Rightarrow> Inl TypeError
             | Some winner \<Rightarrow> Inr (s, [IoTo roomId (PlayerWon sid (name winner) path)])))"

definition return_to_lobby :: "server \<Rightarrow> string \<Rightarrow> string \<Rightarrow> outcome" where
  "return_to_lobby s sid roomId =
     (case lookup_room (rooms s) roomId of
        Undefined \<Rightarrow> Inr (s, [])
      | Builtin \<Rightarrow> Inl BuiltinWrite
      | Found room \<Rightarrow>
          Inr (s\<lparr>rooms := AList.update roomId (room\<lparr>gameState := Waiting\<rparr>) (rooms s)\<rparr>,
               [IoTo roomId ResetToLobby]))"

text \<open>
  The \<open>for (const roomId in rooms)\<close> of the disconnect handler. An iteration reads and
  writes the entry of its own key only, so the loop is a pass over the entries. The
  messages of different rooms are listed in the order of the entries; JavaScript
  visits keys that are array indices (a code such as 123456) before the others, so
  between rooms the order of these messages can differ. No statement below depends
  on it.
\<close>

fun disconnect_rooms :: "string \<Rightarrow> (string \<times> Room) list \<Rightarrow> abort + (string \<times> Room) list \<times> emit list" where
  "disconnect_rooms sid [] = Inr ([], [])"
| "disconnect_rooms sid ((roomId, room) # rest) =
     (if sid \<in> set (players room) then
        let room' = room\<lparr>players := filter (\<lambda>i. i \<noteq> sid) (players room)\<rparr>
        in case player_list (playerStates room') (players room') of
             None \<Rightarrow> Inl TypeError
           | Some remainingPlayers \<Rightarrow>
               (case disconnect_rooms sid rest of
                  Inl a \<Rightarrow> Inl a
                | Inr (rest', out) \<Rightarrow>
                    Inr ((if length (players room') = 0 then [] else [(roomId, room')]) @ rest',
                         IoTo roomId (PlayerLeft sid remainingPlayers) # out))
      else
        (case disconnect_rooms sid rest of
           Inl a \<Rightarrow> Inl a
         | Inr (rest', out) \<Rightarrow> Inr ((roomId, room) # rest', out)))"

definition disconnect :: "server \<Rightarrow> string \<Rightarrow> outcome" where
  "disconnect s sid =
     (case disconnect_rooms sid (rooms s) of
        Inl a \<Rightarrow> Inl a
      | Inr (rs, out) \<Rightarrow>
          Inr (\<lparr>rooms = rs, adapter = filter (\<lambda>(r, x). x \<noteq> sid) (adapter s)\<rparr>, out))"

subsection \<open>Events\<close>

datatype event =
    Connection string
  | CreateRoom string string string nat nat
  | JoinRoom string string string nat nat
  | StartGame string string string string
  | UpdateProgress string string string int
  | GameWin string string "string list"
  | ReturnToLobby string string
  | Disconnect string

fun step :: "server \<Rightarrow> event \<Rightarrow> outcome" where
  "step s (Connection sid) = connection s sid"
| "step s (CreateRoom sid username roomId i j) = create_room s sid username roomId i j"
| "step s (JoinRoom sid roomId username i j) = join_room s sid roomId username i j"
| "step s (StartGame sid roomId start target) = start_game s sid roomId start target"
| "step s (UpdateProgress sid roomId article n) = update_progress s sid roomId article n"
| "step s (GameWin sid roomId path) = game_win s sid roomId path"
| "step s (ReturnToLobby sid roomId) = return_to_lobby s sid roomId"
| "step s (Disconnect sid) = disconnect s sid"

text \<open>Processing a sequence of events, one after the other, from a given state.\<close>

fun run :: "server \<Rightarrow> event list \<Rightarrow> outcome" where
  "run s [] = Inr (s, [])"
| "run s (e # es) =
     (case step s e of
        Inl a \<Rightarrow> Inl a
      | Inr (s', out) \<Rightarrow>
          (case run s' es of
             Inl a \<Rightarrow> Inl a
           | Inr (s'', out') \<Rightarrow> Inr (s'', out @ out')))"

text \<open>The states the process can be in between two events.\<close>

inductive reachable :: "server \<Rightarrow> bool" where
  start: "reachable init"
| next_event: "reachable s \<Longrightarrow> step s e = Inr (s', out) \<Longrightarrow> reachable s'"

subsection \<open>Derived notions used in the statements\<close>

text \<open>
  What the disconnect loop does to one room: a room without the socket is left alone,
  a room that the socket was the last player of is deleted, any other room loses the
  socket from \<open>players\<close> and nothing else.
\<close>

definition leave :: "string \<Rightarrow> Room \<Rightarrow> Room option" where
  "leave sid room =
     (if sid \<in> set (players room) then
        (if filter (\<lambda>i. i \<noteq> sid) (players room) = [] then None
         else Some (room\<lparr>players := filter (\<lambda>i. i \<noteq> sid) (players room)\<rparr>))
      else Some room)"

text \<open>
  The invariant of the registry between events: room codes are distinct, a room has
  between one and eight players, every player has a \<open>playerStates\<close> entry and is a
  member of the socket.io room named by the code.
\<close>

definition room_inv :: "(string \<times> string) list \<Rightarrow> string \<Rightarrow> Room \<Rightarrow> bool" where
  "room_inv ad roomId room \<longleftrightarrow>
     players room \<noteq> [] \<and> length (players room) \<le> 8 \<and>
     set (players room) \<subseteq> fst ` set (playerStates room) \<and>
     (\<forall>pid \<in> set (players room). (roomId, pid) \<in> set ad)"

definition wf :: "server \<Rightarrow> bool" where
  "wf s \<longleftrightarrow>
     distinct (map fst (rooms s)) \<and>
     (\<forall>roomId room. map_of (rooms s) roomId = Some room \<longrightarrow> room_inv (adapter s) roomId room)"


text \<open>The same as a relation: the registry holds a room under the code, with the socket
  among its players.\<close>

definition in_room :: "server \<Rightarrow> string \<Rightarrow> string \<Rightarrow> bool" where
  "in_room s sid roomId \<longleftrightarrow>
     (\<exists>room. map_of (rooms s) roomId = Some room \<and> sid \<in> set (players room))"



text \<open>The stored \<open>clicks\<close> of a player of a room after a sequence of events from the start.\<close>

definition clicks_after :: "event list \<Rightarrow> string \<Rightarrow> string \<Rightarrow> int option" where
  "clicks_after es roomId pid =
     (case run init es of
        Inl a \<Rightarrow> None
      | Inr (s, out) \<Rightarrow>
          (case map_of (rooms s) roomId of
             None \<Rightarrow> None
           | Some room \<Rightarrow> map_option clicks (map_of (playerStates room) pid)))"

subsection \<open>The name resolution as the specification words it\<close>

text \<open>
  The specification's \<open>resolveName\<close>: the requested name with surrounding whitespace
  removed if that is not empty, a generated name otherwise. It is stated here to be
  compared with \<open>playerName\<close>, which is what the handlers compute. Whitespace is the
  ASCII part of what JavaScript's \<open>trim\<close> removes.
\<close>

definition is_space :: "char \<Rightarrow> bool" where
  "is_space c \<longleftrightarrow> c \<in> set [CHR '' '', CHR 0x09, CHR 0x0A, CHR 0x0B, CHR 0x0C, CHR 0x0D]"

definition trim :: "string \<Rightarrow> string" where
  "trim str = rev (dropWhile is_space (rev (dropWhile is_space str)))"

definition spec_resolveName :: "string \<Rightarrow> nat \<Rightarrow> nat \<Rightarrow> string" where
  "spec_resolveName requested i j =
     (if trim requested \<noteq> [] then trim requested else generateName i j)"

subsection \<open>Example states\<close>

text \<open>
  Two sockets \<open>A\<close> and \<open>B\<close> connect; \<open>A\<close> creates a room as Ann and the code drawn is
  \<open>R1\<close>; \<open>B\<close> joins it without a name and is given one.
\<close>

definition lobby_events :: "event list" where
  "lobby_events = [Connection ''A'', Connection ''B'', CreateRoom ''A'' ''Ann'' ''R1'' 0 0,
     JoinRoom ''B'' ''R1'' [] 2 3]"

definition lobby_room :: Room where
  "lobby_room = \<lparr>id_room = ''R1'', players = [''A'', ''B''], gameState = Waiting,
     startArticle = None, targetArticle = None,
     playerStates =
       [(''A'', \<lparr>id_ps = ''A'', name = ''Ann'', clicks = 0, currentArticle = [], history = []\<rparr>),
        (''B'', \<lparr>id_ps = ''B'', name = ''Mega Bear'', clicks = 0, currentArticle = [],
                 history = []\<rparr>)]\<rparr>"

definition lobby :: server where
  "lobby = \<lparr>rooms = [(''R1'', lobby_room)],
     adapter = [(''R1'', ''B''), (''R1'', ''A''), (''B'', ''B''), (''A'', ''A'')]\<rparr>"

text \<open>Then \<open>A\<close> starts a game from Dog to Cat.\<close>

definition round_events :: "event list" where
  "round_events = lobby_events @ [StartGame ''A'' ''R1'' ''Dog'' ''Cat'']"

definition round_room :: Room where
  "round_room = \<lparr>id_room = ''R1'', players = [''A'', ''B''], gameState = Playing,
     startArticle = Some ''Dog'', targetArticle = Some ''Cat'',
     playerStates =
       [(''A'', \<lparr>id_ps = ''A'', name = ''Ann'', clicks = 0, currentArticle = ''Dog'',
                 history = [''Dog'']\<rparr>),
        (''B'', \<lparr>id_ps = ''B'', name = ''Mega Bear'', clicks = 0, currentArticle = ''Dog'',
                 history = [''Dog'']\<rparr>)]\<rparr>"

definition round_AB :: server where
  "round_AB = \<lparr>rooms = [(''R1'', round_room)],
     adapter = [(''R1'', ''B''), (''R1'', ''A''), (''B'', ''B''), (''A'', ''A'')]\<rparr>"

text \<open>Then \<open>B\<close> reports a first click, to Cat.\<close>

definition midround_room :: Room where
  "midround_room = \<lparr>id_room = ''R1'', players = [''A'', ''B''], gameState = Playing,
     startArticle = Some ''Dog'', targetArticle = Some ''Cat'',
     playerStates =
       [(''A'', \<lparr>id_ps = ''A'', name = ''Ann'', clicks = 0, currentArticle = ''Dog'',
                 history = [''Dog'']\<rparr>),
        (''B'', \<lparr>id_ps = ''B'', name = ''Mega Bear'', clicks = 1, currentArticle = ''Cat'',
                 history = [''Dog'', ''Cat'']\<rparr>)]\<rparr>"

definition midround :: server where
  "midround = \<lparr>rooms = [(''R1'', midround_room)],
     adapter = [(''R1'', ''B''), (''R1'', ''A''), (''B'', ''B''), (''A'', ''A'')]\<rparr>"

text \<open>Then \<open>A\<close> sends everybody back to the lobby: the room is waiting, the players keep
  what the round left in their states.\<close>

definition lobby_again_room :: Room where
  "lobby_again_room = \<lparr>id_room = ''R1'', players = [''A'', ''B''], gameState = Waiting,
     startArticle = Some ''Dog'', targetArticle = Some ''Cat'',
     playerStates =
       [(''A'', \<lparr>id_ps = ''A'', name = ''Ann'', clicks = 0, currentArticle = ''Dog'',
                 history = [''Dog'']\<rparr>),
        (''B'', \<lparr>id_ps = ''B'', name = ''Mega Bear'', clicks = 1, currentArticle = ''Cat'',
                 history = [''Dog'', ''Cat'']\<rparr>)]\<rparr>"

definition lobby_again :: server where
  "lobby_again = \<lparr>rooms = [(''R1'', lobby_again_room)],
     adapter = [(''R1'', ''B''), (''R1'', ''A''), (''B'', ''B''), (''A'', ''A'')]\<rparr>"




section \<open>Properties\<close>

subsection \<open>Auxiliary facts\<close>

lemma lookup_room_Found_iff: "lookup_room rs roomId = Found room \<longleftrightarrow> map_of rs roomId = Some room"
  by (simp add: lookup_room_def split: option.splits)

lemma lookup_room_Some: "map_of rs roomId = Some room \<Longrightarrow> lookup_room rs roomId = Found room"
  by (simp add: lookup_room_def)

lemma key_has_entry: "k \<in> fst ` set ps \<Longrightarrow> \<exists>p. map_of ps k = Some p"
  by (cases "map_of ps k") (auto simp: map_of_eq_None_iff)

lemma entry_has_key: "map_of ps k = Some p \<Longrightarrow> k \<in> fst ` set ps"
  by (metis map_of_eq_None_iff option.distinct(1))

lemma player_list_total:
  "set pids \<subseteq> fst ` set ps \<Longrightarrow> \<exists>l. player_list ps pids = Some l"
proof (induction pids)
  case Nil
  then show ?case by simp
next
  case (Cons pid pids)
  then obtain p where "map_of ps pid = Some p"
    using key_has_entry [of pid ps] by auto
  moreover obtain l where "player_list ps pids = Some l"
    using Cons by auto
  ultimately show ?case by simp
qed

lemma player_list_ids: "player_list ps pids = Some l \<Longrightarrow> map fst l = pids"
  by (induction pids arbitrary: l) (auto split: option.splits)

lemma reset_stats_keys: "fst ` set (reset_stats st pids ps) = fst ` set ps"
proof (induction pids arbitrary: ps)
  case Nil
  then show ?case by simp
next
  case (Cons pid pids)
  show ?case
  proof (cases "map_of ps pid")
    case None
    then show ?thesis using Cons by simp
  next
    case (Some p)
    then have "pid \<in> fst ` set ps" by (rule entry_has_key)
    then show ?thesis using Cons Some by (auto simp: AList.dom_update)
  qed
qed

lemma reset_stats_map_of:
  "map_of (reset_stats st pids ps) k =
     (if k \<in> set pids then map_option (\<lambda>p. p\<lparr>clicks := 0, currentArticle := st, history := [st]\<rparr>) (map_of ps k)
      else map_of ps k)"
proof (induction pids arbitrary: ps)
  case Nil
  then show ?case by simp
next
  case (Cons pid pids)
  show ?case
    by (cases "map_of ps pid") (auto simp: Cons AList.update_conv')
qed


lemma disconnect_rooms_rest:
  "disconnect_rooms sid ((roomId, room) # rs) = Inr (rs', out) \<Longrightarrow>
   \<exists>rs0 out0. disconnect_rooms sid rs = Inr (rs0, out0) \<and>
     (rs' = (roomId, room) # rs0 \<and> sid \<notin> set (players room)
      \<or> rs' = rs0 \<and> sid \<in> set (players room) \<and> filter (\<lambda>i. i \<noteq> sid) (players room) = []
      \<or> rs' = (roomId, room\<lparr>players := filter (\<lambda>i. i \<noteq> sid) (players room)\<rparr>) # rs0
          \<and> sid \<in> set (players room) \<and> filter (\<lambda>i. i \<noteq> sid) (players room) \<noteq> [])"
  by (auto simp: Let_def split: if_splits option.splits sum.splits)

lemma disconnect_rooms_subset:
  "disconnect_rooms sid rs = Inr (rs', out) \<Longrightarrow> fst ` set rs' \<subseteq> fst ` set rs"
proof (induction rs arbitrary: rs' out)
  case Nil
  then show ?case by simp
next
  case (Cons e rs)
  obtain roomId room where e: "e = (roomId, room)" by (cases e)
  from disconnect_rooms_rest [OF Cons.prems [unfolded e]]
  obtain rs0 out0 where rest: "disconnect_rooms sid rs = Inr (rs0, out0)"
    and shape: "rs' = (roomId, room) # rs0 \<or> rs' = rs0
      \<or> rs' = (roomId, room\<lparr>players := filter (\<lambda>i. i \<noteq> sid) (players room)\<rparr>) # rs0"
    by blast
  have "fst ` set rs0 \<subseteq> fst ` set rs" by (rule Cons.IH [OF rest])
  with shape show ?case unfolding e by force
qed

lemma disconnect_rooms_distinct:
  "distinct (map fst rs) \<Longrightarrow> disconnect_rooms sid rs = Inr (rs', out) \<Longrightarrow> distinct (map fst rs')"
proof (induction rs arbitrary: rs' out)
  case Nil
  then show ?case by simp
next
  case (Cons e rs)
  obtain roomId room where e: "e = (roomId, room)" by (cases e)
  from disconnect_rooms_rest [OF Cons.prems(2) [unfolded e]]
  obtain rs0 out0 where rest: "disconnect_rooms sid rs = Inr (rs0, out0)"
    and shape: "rs' = (roomId, room) # rs0 \<or> rs' = rs0
      \<or> rs' = (roomId, room\<lparr>players := filter (\<lambda>i. i \<noteq> sid) (players room)\<rparr>) # rs0"
    by blast
  have d: "distinct (map fst rs)" and fresh: "roomId \<notin> fst ` set rs"
    using Cons.prems(1) e by auto
  have "distinct (map fst rs0)" by (rule Cons.IH [OF d rest])
  moreover have "roomId \<notin> fst ` set rs0"
    using fresh disconnect_rooms_subset [OF rest] by blast
  ultimately show ?case using shape by auto
qed

lemma disconnect_rooms_map_of:
  "distinct (map fst rs) \<Longrightarrow> disconnect_rooms sid rs = Inr (rs', out) \<Longrightarrow>
   map_of rs' k = (case map_of rs k of None \<Rightarrow> None | Some room \<Rightarrow> leave sid room)"
proof (induction rs arbitrary: rs' out)
  case Nil
  then show ?case by simp
next
  case (Cons e rs)
  obtain roomId room where e: "e = (roomId, room)" by (cases e)
  from Cons.prems obtain rs0 out0 where rest: "disconnect_rooms sid rs = Inr (rs0, out0)"
    by (auto simp: e Let_def split: if_splits option.splits sum.splits)
  have d: "distinct (map fst rs)" and fresh: "roomId \<notin> fst ` set rs"
    using Cons.prems(1) e by auto
  note ih = Cons.IH [OF d rest]
  have none: "map_of rs0 roomId = None"
    using fresh disconnect_rooms_subset [OF rest] by (auto simp: map_of_eq_None_iff)
  have none': "map_of rs roomId = None"
    using fresh by (simp add: map_of_eq_None_iff)
  from Cons.prems(2) rest show ?case
    using ih none none'
    by (auto simp: e Let_def leave_def split: if_splits option.splits)
qed


lemma wf_init: "wf init"
  by (simp add: wf_def init_def)

lemma wfD: "wf s \<Longrightarrow> map_of (rooms s) roomId = Some room \<Longrightarrow> room_inv (adapter s) roomId room"
  unfolding wf_def by blast

lemma wf_distinct: "wf s \<Longrightarrow> distinct (map fst (rooms s))"
  unfolding wf_def by blast

lemma wfI:
  "distinct (map fst (rooms s)) \<Longrightarrow>
   (\<And>roomId room. map_of (rooms s) roomId = Some room \<Longrightarrow> room_inv (adapter s) roomId room)
   \<Longrightarrow> wf s"
  unfolding wf_def by blast

lemma room_inv_mono: "room_inv ad roomId room \<Longrightarrow> set ad \<subseteq> set ad' \<Longrightarrow> room_inv ad' roomId room"
  unfolding room_inv_def by blast

lemma wf_update_room:
  assumes "wf s" and "rooms s' = AList.update roomId room' (rooms s)"
    and "set (adapter s) \<subseteq> set (adapter s')" and "room_inv (adapter s') roomId room'"
  shows "wf s'"
proof (rule wfI)
  show "distinct (map fst (rooms s'))"
    using wf_distinct [OF assms(1)] by (simp add: assms(2) AList.distinct_update)
next
  fix k r
  assume "map_of (rooms s') k = Some r"
  then have upd: "((map_of (rooms s))(roomId \<mapsto> room')) k = Some r"
    by (simp add: assms(2) AList.update_conv')
  show "room_inv (adapter s') k r"
  proof (cases "k = roomId")
    case True
    with upd assms(4) show ?thesis by simp
  next
    case False
    with upd have "map_of (rooms s) k = Some r" by simp
    then show ?thesis
      using wfD [OF assms(1)] room_inv_mono assms(3) by blast
  qed
qed

lemma wf_connection: "wf s \<Longrightarrow> connection s sid = Inr (s', out) \<Longrightarrow> wf s'"
proof (rule wfI)
  assume a: "wf s" "connection s sid = Inr (s', out)"
  then have s': "rooms s' = rooms s" "adapter s' = List.insert (sid, sid) (adapter s)"
    by (auto simp: connection_def)
  show "distinct (map fst (rooms s'))" using wf_distinct [OF a(1)] by (simp add: s')
  fix k r
  assume "map_of (rooms s') k = Some r"
  then have "room_inv (adapter s) k r" using wfD [OF a(1)] by (simp add: s')
  then show "room_inv (adapter s') k r"
    by (rule room_inv_mono) (auto simp: s')
qed

lemma wf_create_room:
  assumes "wf s" "create_room s sid username roomId i j = Inr (s', out)"
  shows "wf s'"
proof -
  define room' where "room' = \<lparr>id_room = roomId, players = [sid], gameState = Waiting,
    startArticle = None, targetArticle = None,
    playerStates = [(sid, newPlayer sid (playerName username i j))]\<rparr>"
  have s': "rooms s' = AList.update roomId room' (rooms s)"
    "adapter s' = List.insert (roomId, sid) (adapter s)"
    using assms(2) by (auto simp: create_room_def Let_def room'_def)
  have "room_inv (adapter s') roomId room'"
    by (simp add: room_inv_def room'_def s')
  then show ?thesis
    using wf_update_room [OF assms(1) s'(1)] by (auto simp: s'(2))
qed

lemma wf_join_room:
  assumes "wf s" "join_room s sid roomId username i j = Inr (s', out)"
  shows "wf s'"
proof (cases "lookup_room (rooms s) roomId")
  case Undefined
  then show ?thesis using assms by (simp add: join_room_def)
next
  case Builtin
  then show ?thesis using assms by (simp add: join_room_def)
next
  case (Found room)
  then have room: "map_of (rooms s) roomId = Some room"
    by (simp add: lookup_room_Found_iff)
  have inv: "room_inv (adapter s) roomId room"
    by (rule wfD [OF assms(1) room])
  show ?thesis
  proof (cases "gameState room \<noteq> Waiting \<or> length (players room) \<ge> 8")
    case True
    then have "s' = s" using assms(2) Found by (auto simp: join_room_def split: if_splits)
    then show ?thesis using assms(1) by simp
  next
    case False
    define room' where "room' = room\<lparr>players := players room @ [sid],
      playerStates := AList.update sid (newPlayer sid (playerName username i j)) (playerStates room)\<rparr>"
    have s': "rooms s' = AList.update roomId room' (rooms s)"
      "adapter s' = List.insert (roomId, sid) (adapter s)"
      using assms(2) Found False
      by (auto simp: join_room_def Let_def room'_def split: option.splits)
    have "room_inv (adapter s') roomId room'"
      using inv False by (auto simp: room_inv_def room'_def s' AList.dom_update)
    then show ?thesis
      using wf_update_room [OF assms(1) s'(1)] by (auto simp: s'(2))
  qed
qed

lemma wf_start_game:
  assumes "wf s" "start_game s sid roomId st tg = Inr (s', out)"
  shows "wf s'"
proof (cases "lookup_room (rooms s) roomId")
  case Undefined
  then show ?thesis using assms by (simp add: start_game_def)
next
  case Builtin
  then show ?thesis using assms by (simp add: start_game_def)
next
  case (Found room)
  then have room: "map_of (rooms s) roomId = Some room"
    by (simp add: lookup_room_Found_iff)
  have inv: "room_inv (adapter s) roomId room"
    by (rule wfD [OF assms(1) room])
  show ?thesis
  proof (cases "length (players room) < 2")
    case True
    then have "s' = s" using assms(2) Found by (auto simp: start_game_def)
    then show ?thesis using assms(1) by simp
  next
    case False
    define room' where "room' = room\<lparr>startArticle := Some st, targetArticle := Some tg,
      gameState := Playing, playerStates := reset_stats st (players room) (playerStates room)\<rparr>"
    have s': "rooms s' = AList.update roomId room' (rooms s)" "adapter s' = adapter s"
      using assms(2) Found False by (auto simp: start_game_def Let_def room'_def)
    have "room_inv (adapter s') roomId room'"
      using inv by (simp add: room_inv_def room'_def s' reset_stats_keys)
    then show ?thesis
      using wf_update_room [OF assms(1) s'(1)] by (auto simp: s'(2))
  qed
qed

lemma wf_update_progress:
  assumes "wf s" "update_progress s sid roomId a n = Inr (s', out)"
  shows "wf s'"
proof (cases "lookup_room (rooms s) roomId")
  case Undefined
  then show ?thesis using assms by (simp add: update_progress_def)
next
  case Builtin
  then show ?thesis using assms by (simp add: update_progress_def)
next
  case (Found room)
  then have room: "map_of (rooms s) roomId = Some room"
    by (simp add: lookup_room_Found_iff)
  have inv: "room_inv (adapter s) roomId room"
    by (rule wfD [OF assms(1) room])
  show ?thesis
  proof (cases "gameState room \<noteq> Playing \<or> map_of (playerStates room) sid = None")
    case True
    then have "s' = s"
      using assms(2) Found by (auto simp: update_progress_def split: if_splits)
    then show ?thesis using assms(1) by simp
  next
    case False
    then obtain p where p: "map_of (playerStates room) sid = Some p" by auto
    define room' where "room' = room\<lparr>playerStates := AList.update sid
      (p\<lparr>currentArticle := a, clicks := n, history := history p @ [a]\<rparr>) (playerStates room)\<rparr>"
    have s': "rooms s' = AList.update roomId room' (rooms s)" "adapter s' = adapter s"
      using assms(2) Found False p by (auto simp: update_progress_def Let_def room'_def)
    have "room_inv (adapter s') roomId room'"
      using inv by (auto simp: room_inv_def room'_def s' AList.dom_update)
    then show ?thesis
      using wf_update_room [OF assms(1) s'(1)] by (auto simp: s'(2))
  qed
qed

lemma game_win_state: "game_win s sid roomId path = Inr (s', out) \<Longrightarrow> s' = s"
  by (auto simp: game_win_def split: room_lookup.splits if_splits option.splits)

lemma wf_return_to_lobby:
  assumes "wf s" "return_to_lobby s sid roomId = Inr (s', out)"
  shows "wf s'"
proof (cases "lookup_room (rooms s) roomId")
  case Undefined
  then show ?thesis using assms by (simp add: return_to_lobby_def)
next
  case Builtin
  then show ?thesis using assms by (simp add: return_to_lobby_def)
next
  case (Found room)
  then have room: "map_of (rooms s) roomId = Some room"
    by (simp add: lookup_room_Found_iff)
  have inv: "room_inv (adapter s) roomId room"
    by (rule wfD [OF assms(1) room])
  have s': "rooms s' = AList.update roomId (room\<lparr>gameState := Waiting\<rparr>) (rooms s)"
    "adapter s' = adapter s"
    using assms(2) Found by (auto simp: return_to_lobby_def)
  have "room_inv (adapter s') roomId (room\<lparr>gameState := Waiting\<rparr>)"
    using inv by (simp add: room_inv_def s')
  then show ?thesis
    using wf_update_room [OF assms(1) s'(1)] by (auto simp: s'(2))
qed

lemma disconnect_shape:
  "disconnect s sid = Inr (s', out) \<Longrightarrow>
   disconnect_rooms sid (rooms s) = Inr (rooms s', out) \<and>
   adapter s' = filter (\<lambda>(r, x). x \<noteq> sid) (adapter s)"
  by (auto simp: disconnect_def split: sum.splits)

lemma room_inv_leave:
  assumes "room_inv ad k r" "leave sid r = Some r'"
  shows "room_inv (filter (\<lambda>(r, x). x \<noteq> sid) ad) k r'"
proof (cases "sid \<in> set (players r)")
  case True
  then have r': "r' = r\<lparr>players := filter (\<lambda>i. i \<noteq> sid) (players r)\<rparr>"
    and ne: "filter (\<lambda>i. i \<noteq> sid) (players r) \<noteq> []"
    using assms(2) by (auto simp: leave_def split: if_splits)
  have "length (players r) \<le> 8" using assms(1) by (simp add: room_inv_def)
  then have "length (filter (\<lambda>i. i \<noteq> sid) (players r)) \<le> 8"
    using length_filter_le [of "\<lambda>i. i \<noteq> sid" "players r"] by linarith
  then show ?thesis
    using assms(1) ne unfolding room_inv_def r' by auto
next
  case False
  then have "r' = r" using assms(2) by (simp add: leave_def)
  then show ?thesis using assms(1) False unfolding room_inv_def by auto
qed

lemma wf_disconnect:
  assumes "wf s" "disconnect s sid = Inr (s', out)"
  shows "wf s'"
proof (rule wfI)
  note loop = disconnect_shape [OF assms(2), THEN conjunct1]
  note ad = disconnect_shape [OF assms(2), THEN conjunct2]
  have d: "distinct (map fst (rooms s))" by (rule wf_distinct [OF assms(1)])
  show "distinct (map fst (rooms s'))" by (rule disconnect_rooms_distinct [OF d loop])
  fix k r'
  assume "map_of (rooms s') k = Some r'"
  with disconnect_rooms_map_of [OF d loop, of k]
  obtain r where r: "map_of (rooms s) k = Some r" and l: "leave sid r = Some r'"
    by (auto split: option.splits)
  have "room_inv (adapter s) k r" by (rule wfD [OF assms(1) r])
  then show "room_inv (adapter s') k r'"
    unfolding ad using l by (rule room_inv_leave)
qed

lemma wf_step: "wf s \<Longrightarrow> step s e = Inr (s', out) \<Longrightarrow> wf s'"
  by (cases e) (auto intro: wf_connection wf_create_room wf_join_room wf_start_game
      wf_update_progress wf_return_to_lobby wf_disconnect dest: game_win_state)

lemma reachable_wf: "reachable s \<Longrightarrow> wf s"
  by (induction rule: reachable.induct) (auto intro: wf_init wf_step)

lemma run_reachable: "reachable s \<Longrightarrow> run s es = Inr (s', out) \<Longrightarrow> reachable s'"
proof (induction es arbitrary: s out)
  case Nil
  then show ?case by simp
next
  case (Cons e es)
  from Cons.prems(2) obtain s1 out1 out2 where
    first: "step s e = Inr (s1, out1)" and rest: "run s1 es = Inr (s', out2)"
    by (auto split: sum.splits)
  have "reachable s1" by (rule reachable.next_event [OF Cons.prems(1) first])
  then show ?case using rest by (rule Cons.IH)
qed

lemmas handler_defs = connection_def create_room_def join_room_def start_game_def
  update_progress_def game_win_def return_to_lobby_def disconnect_def lookup_room_def
  playerName_def generateName_def pick_def ADJECTIVES_def ANIMALS_def newPlayer_def
  OBJECT_PROTOTYPE_KEYS_def

lemma run_lobby:
  "run init lobby_events =
     Inr (lobby,
          [Callback ''A'' (Created ''R1'' [(''A'', ''Ann'')]),
           Callback ''B'' (Joined ''R1'' [(''A'', ''Ann''), (''B'', ''Mega Bear'')]),
           IoTo ''R1'' (PlayerJoined [(''A'', ''Ann''), (''B'', ''Mega Bear'')])])"
  by (simp add: lobby_events_def lobby_def lobby_room_def init_def handler_defs Let_def)

lemma start_lobby:
  "step lobby (StartGame ''A'' ''R1'' ''Dog'' ''Cat'') =
     Inr (round_AB, [IoTo ''R1'' (GameStarted ''Dog'' ''Cat'')])"
  by (simp add: lobby_def lobby_room_def round_AB_def round_room_def handler_defs Let_def)

lemma reachable_lobby: "reachable lobby"
  using run_reachable [OF reachable.start run_lobby] .

lemma reachable_round_AB: "reachable round_AB"
  using reachable.next_event [OF reachable_lobby start_lobby] .

lemma lobby_R1: "map_of (rooms lobby) ''R1'' = Some lobby_room"
  by (simp add: lobby_def)

lemma round_R1: "map_of (rooms round_AB) ''R1'' = Some round_room"
  by (simp add: round_AB_def)

lemma progress_round_AB:
  "step round_AB (UpdateProgress ''B'' ''R1'' ''Cat'' 1) =
     Inr (midround, [SocketTo ''B'' ''R1'' (OpponentProgress ''B'' ''Mega Bear'' ''Cat'' 1)])"
  by (simp add: round_AB_def round_room_def midround_def midround_room_def handler_defs Let_def)

lemma reachable_midround: "reachable midround"
  using reachable.next_event [OF reachable_round_AB progress_round_AB] .

lemma midround_R1: "map_of (rooms midround) ''R1'' = Some midround_room"
  by (simp add: midround_def)

lemma lobby_again_step:
  "step midround (ReturnToLobby ''A'' ''R1'') = Inr (lobby_again, [IoTo ''R1'' ResetToLobby])"
  by (simp add: midround_def midround_room_def lobby_again_def lobby_again_room_def
      handler_defs Let_def)

lemma reachable_lobby_again: "reachable lobby_again"
  using reachable.next_event [OF reachable_midround lobby_again_step] .

lemma lobby_again_R1: "map_of (rooms lobby_again) ''R1'' = Some lobby_again_room"
  by (simp add: lobby_again_def)



lemma start_game_effect:
  assumes "map_of (rooms s) roomId = Some room" and "2 \<le> length (players room)"
  shows "start_game s sid roomId st tg =
     Inr (s\<lparr>rooms := AList.update roomId
              (room\<lparr>startArticle := Some st, targetArticle := Some tg, gameState := Playing,
                    playerStates := reset_stats st (players room) (playerStates room)\<rparr>)
              (rooms s)\<rparr>,
          [IoTo roomId (GameStarted st tg)])"
  using assms by (simp add: start_game_def lookup_room_Some Let_def)

lemma member_has_state:
  assumes "reachable s" and "map_of (rooms s) roomId = Some room" and "pid \<in> set (players room)"
  shows "\<exists>p. map_of (playerStates room) pid = Some p"
proof -
  have "room_inv (adapter s) roomId room"
    by (rule wfD [OF reachable_wf [OF assms(1)] assms(2)])
  then have "pid \<in> fst ` set (playerStates room)"
    using assms(3) unfolding room_inv_def by blast
  then show ?thesis by (rule key_has_entry)
qed

lemma member_in_socket_room:
  assumes "reachable s" and "map_of (rooms s) roomId = Some room" and "pid \<in> set (players room)"
  shows "(roomId, pid) \<in> set (adapter s)"
proof -
  have "room_inv (adapter s) roomId room"
    by (rule wfD [OF reachable_wf [OF assms(1)] assms(2)])
  then show ?thesis using assms(3) unfolding room_inv_def by blast
qed

text \<open>
  C4. A \<open>start_game\<close> on a room with at least two players, whatever the room and its
  players held before: the room gets the start and the target article and the state
  \<open>playing\<close>, the list of players stays, every player's state is the old one with
  \<open>clicks\<close> 0, \<open>currentArticle\<close> the start article and \<open>history\<close> the one-element list of
  the start article, and the one message sent is the broadcast of both articles to the
  room, which every player receives.
\<close>

theorem start_game_resets_every_member:
  assumes "reachable s" and "map_of (rooms s) roomId = Some room"
    and "2 \<le> length (players room)"
  shows "\<exists>s' room'.
     start_game s sid roomId st tg = Inr (s', [IoTo roomId (GameStarted st tg)]) \<and>
     map_of (rooms s') roomId = Some room' \<and>
     startArticle room' = Some st \<and> targetArticle room' = Some tg \<and>
     gameState room' = Playing \<and> players room' = players room \<and>
     (\<forall>pid \<in> set (players room). \<exists>p.
        map_of (playerStates room) pid = Some p \<and>
        map_of (playerStates room') pid =
          Some (p\<lparr>clicks := 0, currentArticle := st, history := [st]\<rparr>)) \<and>
     set (players room) \<subseteq> recipients (adapter s') (IoTo roomId (GameStarted st tg))"
proof -
  define room' where "room' = room\<lparr>startArticle := Some st, targetArticle := Some tg,
    gameState := Playing, playerStates := reset_stats st (players room) (playerStates room)\<rparr>"
  define s' where "s' = s\<lparr>rooms := AList.update roomId room' (rooms s)\<rparr>"
  have res: "start_game s sid roomId st tg = Inr (s', [IoTo roomId (GameStarted st tg)])"
    unfolding s'_def room'_def by (rule start_game_effect [OF assms(2,3)])
  have look: "map_of (rooms s') roomId = Some room'"
    by (simp add: s'_def AList.update_conv')
  have reset: "\<exists>p. map_of (playerStates room) pid = Some p \<and>
      map_of (playerStates room') pid = Some (p\<lparr>clicks := 0, currentArticle := st, history := [st]\<rparr>)"
    if mem: "pid \<in> set (players room)" for pid
  proof -
    obtain p where "map_of (playerStates room) pid = Some p"
      using member_has_state [OF assms(1,2) mem] by blast
    then show ?thesis using mem by (simp add: room'_def reset_stats_map_of)
  qed
  have heard: "set (players room) \<subseteq> recipients (adapter s') (IoTo roomId (GameStarted st tg))"
    using member_in_socket_room [OF assms(1,2)] by (auto simp: s'_def)
  show ?thesis
    using res look reset heard by (intro exI [of _ s'] exI [of _ room']) (simp add: room'_def)
qed

theorem start_game_resets_every_member_witness:
  "reachable lobby \<and> map_of (rooms lobby) ''R1'' = Some lobby_room \<and>
   2 \<le> length (players lobby_room) \<and>
   (\<exists>s' room'.
     start_game lobby ''A'' ''R1'' ''Dog'' ''Cat'' = Inr (s', [IoTo ''R1'' (GameStarted ''Dog'' ''Cat'')]) \<and>
     map_of (rooms s') ''R1'' = Some room' \<and>
     startArticle room' = Some ''Dog'' \<and> targetArticle room' = Some ''Cat'' \<and>
     gameState room' = Playing \<and> players room' = players lobby_room \<and>
     (\<forall>pid \<in> set (players lobby_room). \<exists>p.
        map_of (playerStates lobby_room) pid = Some p \<and>
        map_of (playerStates room') pid =
          Some (p\<lparr>clicks := 0, currentArticle := ''Dog'', history := [''Dog'']\<rparr>)) \<and>
     set (players lobby_room) \<subseteq> recipients (adapter s') (IoTo ''R1'' (GameStarted ''Dog'' ''Cat'')))"
proof -
  have len: "2 \<le> length (players lobby_room)" by (simp add: lobby_room_def)
  show ?thesis
    using start_game_resets_every_member [OF reachable_lobby lobby_R1 len, of "''A''" "''Dog''" "''Cat''"]
      reachable_lobby lobby_R1 len
    by blast
qed

text \<open>
  C10. \<open>start_game\<close> never reads the room's \<open>gameState\<close>: with at least two players its
  outcome is the same whatever that state is. On a room that is already playing it
  answers with the broadcast alone (no error goes to the caller), the room stays
  \<open>playing\<close> with the new articles, and every player is back at \<open>clicks\<close> 0 on the new
  start article with a history of that article only.
\<close>

theorem start_game_ignores_gameState:
  assumes "reachable s" and "map_of (rooms s) roomId = Some room"
    and "2 \<le> length (players room)"
  shows "start_game (s\<lparr>rooms := AList.update roomId (room\<lparr>gameState := g\<rparr>) (rooms s)\<rparr>) sid roomId st tg
       = start_game s sid roomId st tg \<and>
     (gameState room = Playing \<longrightarrow>
       (\<exists>s' room'.
          start_game s sid roomId st tg = Inr (s', [IoTo roomId (GameStarted st tg)]) \<and>
          map_of (rooms s') roomId = Some room' \<and> gameState room' = Playing \<and>
          startArticle room' = Some st \<and> targetArticle room' = Some tg \<and>
          (\<forall>pid \<in> set (players room). \<exists>p'.
             map_of (playerStates room') pid = Some p' \<and>
             clicks p' = 0 \<and> currentArticle p' = st \<and> history p' = [st])))"
proof
  let ?s = "s\<lparr>rooms := AList.update roomId (room\<lparr>gameState := g\<rparr>) (rooms s)\<rparr>"
  have look: "map_of (rooms ?s) roomId = Some (room\<lparr>gameState := g\<rparr>)"
    by (simp add: AList.update_conv')
  have len: "2 \<le> length (players (room\<lparr>gameState := g\<rparr>))"
    using assms(3) by simp
  show "start_game ?s sid roomId st tg = start_game s sid roomId st tg"
    unfolding start_game_effect [OF look len] start_game_effect [OF assms(2,3)]
    by simp
next
  show "gameState room = Playing \<longrightarrow>
       (\<exists>s' room'.
          start_game s sid roomId st tg = Inr (s', [IoTo roomId (GameStarted st tg)]) \<and>
          map_of (rooms s') roomId = Some room' \<and> gameState room' = Playing \<and>
          startArticle room' = Some st \<and> targetArticle room' = Some tg \<and>
          (\<forall>pid \<in> set (players room). \<exists>p'.
             map_of (playerStates room') pid = Some p' \<and>
             clicks p' = 0 \<and> currentArticle p' = st \<and> history p' = [st]))"
  proof
    define room' where "room' = room\<lparr>startArticle := Some st, targetArticle := Some tg,
      gameState := Playing, playerStates := reset_stats st (players room) (playerStates room)\<rparr>"
    define s' where "s' = s\<lparr>rooms := AList.update roomId room' (rooms s)\<rparr>"
    have res: "start_game s sid roomId st tg = Inr (s', [IoTo roomId (GameStarted st tg)])"
      unfolding s'_def room'_def by (rule start_game_effect [OF assms(2,3)])
    have look: "map_of (rooms s') roomId = Some room'"
      by (simp add: s'_def AList.update_conv')
    have reset: "\<exists>p'. map_of (playerStates room') pid = Some p' \<and>
        clicks p' = 0 \<and> currentArticle p' = st \<and> history p' = [st]"
      if mem: "pid \<in> set (players room)" for pid
    proof -
      obtain p where "map_of (playerStates room) pid = Some p"
        using member_has_state [OF assms(1,2) mem] by blast
      then show ?thesis using mem by (simp add: room'_def reset_stats_map_of)
    qed
    show "\<exists>s' room'.
          start_game s sid roomId st tg = Inr (s', [IoTo roomId (GameStarted st tg)]) \<and>
          map_of (rooms s') roomId = Some room' \<and> gameState room' = Playing \<and>
          startArticle room' = Some st \<and> targetArticle room' = Some tg \<and>
          (\<forall>pid \<in> set (players room). \<exists>p'.
             map_of (playerStates room') pid = Some p' \<and>
             clicks p' = 0 \<and> currentArticle p' = st \<and> history p' = [st])"
      using res look reset by (intro exI [of _ s'] exI [of _ room']) (simp add: room'_def)
  qed
qed

theorem start_game_ignores_gameState_witness:
  "reachable midround \<and> map_of (rooms midround) ''R1'' = Some midround_room \<and>
   2 \<le> length (players midround_room) \<and> gameState midround_room = Playing \<and>
   start_game (midround\<lparr>rooms := AList.update ''R1'' (midround_room\<lparr>gameState := Waiting\<rparr>)
                                    (rooms midround)\<rparr>) ''A'' ''R1'' ''Sun'' ''Moon''
     = start_game midround ''A'' ''R1'' ''Sun'' ''Moon'' \<and>
   (\<exists>s' room'.
      start_game midround ''A'' ''R1'' ''Sun'' ''Moon'' =
        Inr (s', [IoTo ''R1'' (GameStarted ''Sun'' ''Moon'')]) \<and>
      map_of (rooms s') ''R1'' = Some room' \<and> gameState room' = Playing \<and>
      startArticle room' = Some ''Sun'' \<and> targetArticle room' = Some ''Moon'' \<and>
      (\<forall>pid \<in> set (players midround_room). \<exists>p'.
         map_of (playerStates room') pid = Some p' \<and>
         clicks p' = 0 \<and> currentArticle p' = ''Sun'' \<and> history p' = [''Sun'']))"
proof -
  have len: "2 \<le> length (players midround_room)" by (simp add: midround_room_def)
  have playing: "gameState midround_room = Playing" by (simp add: midround_room_def)
  show ?thesis
    using start_game_ignores_gameState [OF reachable_midround midround_R1 len,
        of Waiting "''A''" "''Sun''" "''Moon''"]
      reachable_midround midround_R1 len playing
    by blast
qed

lemma update_progress_effect:
  assumes "map_of (rooms s) roomId = Some room" and "gameState room = Playing"
    and "map_of (playerStates room) sid = Some player"
  shows "update_progress s sid roomId article n =
     Inr (s\<lparr>rooms := AList.update roomId
              (room\<lparr>playerStates := AList.update sid
                 (player\<lparr>currentArticle := article, clicks := n,
                         history := history player @ [article]\<rparr>) (playerStates room)\<rparr>)
              (rooms s)\<rparr>,
          [SocketTo sid roomId (OpponentProgress sid (name player) article n)])"
  using assms by (simp add: update_progress_def lookup_room_Some Let_def)

lemma update_progress_ignored:
  assumes "\<And>room. map_of (rooms s) roomId = Some room \<Longrightarrow> gameState room \<noteq> Playing"
  shows "update_progress s sid roomId article n = Inr (s, [])"
proof (cases "lookup_room (rooms s) roomId")
  case (Found room)
  then have "gameState room \<noteq> Playing"
    using assms by (simp add: lookup_room_Found_iff)
  then show ?thesis using Found by (simp add: update_progress_def)
qed (simp_all add: update_progress_def)

text \<open>
  C6. An \<open>update_progress\<close> from a player of a room that is playing stores the reported
  article and click count in the sender's state, appends the article to the sender's
  history and changes nothing else; the one message sent carries the sender's id and
  name and the reported article and clicks, every other player of the room receives
  it and the sender does not. If the registry has no room under the code, or the room
  is not playing, the state is unchanged and nothing is sent.
\<close>

theorem update_progress_relays_to_the_others:
  "(reachable s \<and> map_of (rooms s) roomId = Some room \<and> gameState room = Playing \<and>
    sid \<in> set (players room) \<longrightarrow>
      (\<exists>player.
         map_of (playerStates room) sid = Some player \<and>
         update_progress s sid roomId article n =
           Inr (s\<lparr>rooms := AList.update roomId
                    (room\<lparr>playerStates := AList.update sid
                       (player\<lparr>currentArticle := article, clicks := n,
                               history := history player @ [article]\<rparr>) (playerStates room)\<rparr>)
                    (rooms s)\<rparr>,
                [SocketTo sid roomId (OpponentProgress sid (name player) article n)]) \<and>
         set (players room) - {sid}
           \<subseteq> recipients (adapter s) (SocketTo sid roomId (OpponentProgress sid (name player) article n)) \<and>
         sid \<notin> recipients (adapter s) (SocketTo sid roomId (OpponentProgress sid (name player) article n))))
   \<and> ((\<forall>room. map_of (rooms s) roomId = Some room \<longrightarrow> gameState room \<noteq> Playing) \<longrightarrow>
        update_progress s sid roomId article n = Inr (s, []))"
proof (intro conjI impI)
  assume a: "reachable s \<and> map_of (rooms s) roomId = Some room \<and> gameState room = Playing \<and>
    sid \<in> set (players room)"
  then obtain player where player: "map_of (playerStates room) sid = Some player"
    using member_has_state by blast
  have run: "update_progress s sid roomId article n =
     Inr (s\<lparr>rooms := AList.update roomId
              (room\<lparr>playerStates := AList.update sid
                 (player\<lparr>currentArticle := article, clicks := n,
                         history := history player @ [article]\<rparr>) (playerStates room)\<rparr>)
              (rooms s)\<rparr>,
          [SocketTo sid roomId (OpponentProgress sid (name player) article n)])"
    using a player by (intro update_progress_effect) simp_all
  have heard: "set (players room) - {sid}
      \<subseteq> recipients (adapter s) (SocketTo sid roomId (OpponentProgress sid (name player) article n))"
    using a member_in_socket_room [of s roomId room] by auto
  have quiet: "sid \<notin> recipients (adapter s) (SocketTo sid roomId (OpponentProgress sid (name player) article n))"
    by simp
  show "\<exists>player.
         map_of (playerStates room) sid = Some player \<and>
         update_progress s sid roomId article n =
           Inr (s\<lparr>rooms := AList.update roomId
                    (room\<lparr>playerStates := AList.update sid
                       (player\<lparr>currentArticle := article, clicks := n,
                               history := history player @ [article]\<rparr>) (playerStates room)\<rparr>)
                    (rooms s)\<rparr>,
                [SocketTo sid roomId (OpponentProgress sid (name player) article n)]) \<and>
         set (players room) - {sid}
           \<subseteq> recipients (adapter s) (SocketTo sid roomId (OpponentProgress sid (name player) article n)) \<and>
         sid \<notin> recipients (adapter s) (SocketTo sid roomId (OpponentProgress sid (name player) article n))"
    using player run heard quiet by blast
next
  assume "\<forall>room. map_of (rooms s) roomId = Some room \<longrightarrow> gameState room \<noteq> Playing"
  then show "update_progress s sid roomId article n = Inr (s, [])"
    by (intro update_progress_ignored) blast
qed

theorem update_progress_relays_to_the_others_witness:
  "reachable round_AB \<and> map_of (rooms round_AB) ''R1'' = Some round_room \<and>
   gameState round_room = Playing \<and> ''B'' \<in> set (players round_room) \<and>
   update_progress round_AB ''B'' ''R1'' ''Cat'' 1 =
     Inr (midround, [SocketTo ''B'' ''R1'' (OpponentProgress ''B'' ''Mega Bear'' ''Cat'' 1)]) \<and>
   ''A'' \<in> recipients (adapter round_AB)
             (SocketTo ''B'' ''R1'' (OpponentProgress ''B'' ''Mega Bear'' ''Cat'' 1)) \<and>
   ''B'' \<notin> recipients (adapter round_AB)
             (SocketTo ''B'' ''R1'' (OpponentProgress ''B'' ''Mega Bear'' ''Cat'' 1)) \<and>
   map_of (rooms lobby) ''R1'' = Some lobby_room \<and> gameState lobby_room \<noteq> Playing \<and>
   update_progress lobby ''B'' ''R1'' ''Cat'' 1 = Inr (lobby, []) \<and>
   map_of (rooms lobby) ''R2'' = None \<and>
   update_progress lobby ''B'' ''R2'' ''Cat'' 1 = Inr (lobby, [])"
proof -
  have playing: "gameState round_room = Playing" and member: "''B'' \<in> set (players round_room)"
    by (simp_all add: round_room_def)
  have state: "map_of (playerStates round_room) ''B'' =
      Some \<lparr>id_ps = ''B'', name = ''Mega Bear'', clicks = 0, currentArticle = ''Dog'',
            history = [''Dog'']\<rparr>"
    by (simp add: round_room_def)
  have waiting: "\<forall>room. map_of (rooms lobby) ''R1'' = Some room \<longrightarrow> gameState room \<noteq> Playing"
    by (simp add: lobby_def lobby_room_def)
  have absent: "\<forall>room. map_of (rooms lobby) ''R2'' = Some room \<longrightarrow> gameState room \<noteq> Playing"
    by (simp add: lobby_def)
  note first = update_progress_relays_to_the_others
      [of round_AB "''R1''" round_room "''B''" "''Cat''" 1, THEN conjunct1, rule_format,
       OF conjI [OF reachable_round_AB conjI [OF round_R1 conjI [OF playing member]]]]
  note second = update_progress_relays_to_the_others
      [of lobby "''R1''" _ "''B''" "''Cat''" 1, THEN conjunct2, rule_format, OF waiting [rule_format]]
  note third = update_progress_relays_to_the_others
      [of lobby "''R2''" _ "''B''" "''Cat''" 1, THEN conjunct2, rule_format, OF absent [rule_format]]
  have "update_progress round_AB ''B'' ''R1'' ''Cat'' 1 =
     Inr (midround, [SocketTo ''B'' ''R1'' (OpponentProgress ''B'' ''Mega Bear'' ''Cat'' 1)])"
    using first state
    by (auto simp: round_AB_def round_room_def midround_def midround_room_def)
  moreover have "''A'' \<in> recipients (adapter round_AB)
             (SocketTo ''B'' ''R1'' (OpponentProgress ''B'' ''Mega Bear'' ''Cat'' 1))"
    using first state by (auto simp: round_room_def)
  moreover have "''B'' \<notin> recipients (adapter round_AB)
             (SocketTo ''B'' ''R1'' (OpponentProgress ''B'' ''Mega Bear'' ''Cat'' 1))"
    using first state by auto
  moreover have "gameState lobby_room \<noteq> Playing" "map_of (rooms lobby) ''R2'' = None"
    by (simp_all add: lobby_room_def lobby_def)
  ultimately show ?thesis
    using reachable_round_AB round_R1 playing member lobby_R1 second third by simp
qed








lemma disconnect_keeps_player_states:
  assumes "reachable s" and "disconnect s sid = Inr (s', out)"
    and "map_of (rooms s) roomId = Some room" and "map_of (rooms s') roomId = Some room'"
  shows "playerStates room' = playerStates room"
proof -
  have "map_of (rooms s') roomId = leave sid room"
    using disconnect_rooms_map_of [OF wf_distinct [OF reachable_wf [OF assms(1)]]
        disconnect_shape [OF assms(2), THEN conjunct1], of roomId] assms(3)
    by simp
  then have "leave sid room = Some room'" using assms(4) by simp
  then show ?thesis by (auto simp: leave_def split: if_splits)
qed

text \<open>
  C3. For a socket without an entry in the \<open>playerStates\<close> of a room that is playing,
  \<open>update_progress\<close> returns without a change and without a message, as the claim
  says, but \<open>game_win\<close> does not return: it reads \<open>name\<close> of the missing entry, and
  the exception is not caught. \<open>update_progress\<close> guards the entry with \<open>if (player)\<close>;
  \<open>game_win\<close> has no such guard.
\<close>

theorem game_win_of_a_stranger_throws:
  assumes "map_of (rooms s) roomId = Some room" and "gameState room = Playing"
    and "map_of (playerStates room) sid = None"
  shows "update_progress s sid roomId article n = Inr (s, []) \<and>
     game_win s sid roomId path = Inl TypeError"
  using assms by (simp add: update_progress_def game_win_def lookup_room_Some)

theorem game_win_of_a_stranger_throws_witness:
  "reachable round_AB \<and> map_of (rooms round_AB) ''R1'' = Some round_room \<and>
   gameState round_room = Playing \<and> map_of (playerStates round_room) ''C'' = None \<and>
   update_progress round_AB ''C'' ''R1'' ''Cat'' 1 = Inr (round_AB, []) \<and>
   game_win round_AB ''C'' ''R1'' [''Dog'', ''Cat''] = Inl TypeError"
proof -
  have playing: "gameState round_room = Playing"
    and stranger: "map_of (playerStates round_room) ''C'' = None"
    by (simp_all add: round_room_def)
  show ?thesis
    using game_win_of_a_stranger_throws [OF round_R1 playing stranger,
        where article = "''Cat''" and n = 1 and path = "[''Dog'', ''Cat'']"]
      reachable_round_AB round_R1 playing stranger
    by simp
qed

text \<open>
  C1. \<open>disconnect\<close> takes the socket out of \<open>players\<close> and leaves \<open>playerStates\<close> as it
  is: in a room that outlives the disconnect, the entry of the player who left stays.
  So the keys of \<open>playerStates\<close> and the players of a room differ from the first such
  disconnect on; up to then, and in the other direction always, they agree (every
  player has an entry: \<open>reachable_wf\<close>).
\<close>

theorem disconnect_keeps_the_player_state:
  assumes "reachable s" and "disconnect s sid = Inr (s', out)"
    and "map_of (rooms s) roomId = Some room" and "map_of (rooms s') roomId = Some room'"
  shows "players room' = filter (\<lambda>i. i \<noteq> sid) (players room) \<and>
     playerStates room' = playerStates room"
proof -
  have "map_of (rooms s') roomId = leave sid room"
    using disconnect_rooms_map_of [OF wf_distinct [OF reachable_wf [OF assms(1)]]
        disconnect_shape [OF assms(2), THEN conjunct1], of roomId] assms(3)
    by simp
  then have l: "leave sid room = Some room'" using assms(4) by simp
  show ?thesis
  proof (cases "sid \<in> set (players room)")
    case True
    then show ?thesis using l by (auto simp: leave_def split: if_splits)
  next
    case False
    then have "filter (\<lambda>i. i \<noteq> sid) (players room) = players room"
      by (auto simp: filter_id_conv)
    then show ?thesis using l False by (simp add: leave_def)
  qed
qed

theorem disconnect_keeps_the_player_state_witness:
  "reachable lobby \<and>
   disconnect lobby ''B'' =
     Inr (\<lparr>rooms = [(''R1'', lobby_room\<lparr>players := [''A'']\<rparr>)],
           adapter = [(''R1'', ''A''), (''A'', ''A'')]\<rparr>,
          [IoTo ''R1'' (PlayerLeft ''B'' [(''A'', ''Ann'')])]) \<and>
   players (lobby_room\<lparr>players := [''A'']\<rparr>) = [''A''] \<and>
   map fst (playerStates (lobby_room\<lparr>players := [''A'']\<rparr>)) = [''A'', ''B''] \<and>
   set (map fst (playerStates (lobby_room\<lparr>players := [''A'']\<rparr>)))
     \<noteq> set (players (lobby_room\<lparr>players := [''A'']\<rparr>))"
proof -
  have d: "disconnect lobby ''B'' =
     Inr (\<lparr>rooms = [(''R1'', lobby_room\<lparr>players := [''A'']\<rparr>)],
           adapter = [(''R1'', ''A''), (''A'', ''A'')]\<rparr>,
          [IoTo ''R1'' (PlayerLeft ''B'' [(''A'', ''Ann'')])])"
    by (simp add: lobby_def lobby_room_def handler_defs Let_def)
  have after: "map_of (rooms \<lparr>rooms = [(''R1'', lobby_room\<lparr>players := [''A'']\<rparr>)],
      adapter = [(''R1'', ''A''), (''A'', ''A'')]\<rparr>) ''R1'' = Some (lobby_room\<lparr>players := [''A'']\<rparr>)"
    by simp
  have "playerStates (lobby_room\<lparr>players := [''A'']\<rparr>) = playerStates lobby_room"
    using disconnect_keeps_the_player_state [OF reachable_lobby d lobby_R1 after] by simp
  then have "map fst (playerStates (lobby_room\<lparr>players := [''A'']\<rparr>)) = [''A'', ''B'']"
    by (simp add: lobby_room_def)
  then show ?thesis using reachable_lobby d by simp
qed

text \<open>
  C5. A \<open>join_room\<close> naming a code that the registry does not hold is answered "Room
  not found" only if the code is not the name of a property that every object
  inherits: for \<open>constructor\<close>, \<open>toString\<close> and the like \<open>rooms[roomId]\<close> is a built-in,
  the check \<open>!room\<close> does not fire, and since a built-in has no \<open>gameState\<close> the answer is
  "Game already started".
\<close>

theorem join_room_inherited_name:
  assumes "map_of (rooms s) roomId = None" and "roomId \<in> set OBJECT_PROTOTYPE_KEYS"
  shows "join_room s sid roomId username i j =
     Inr (s, [Callback sid (Error ''Game already started'')])"
  using assms by (simp add: join_room_def lookup_room_def)

theorem join_room_inherited_name_witness:
  "map_of (rooms init) ''constructor'' = None \<and> ''constructor'' \<in> set OBJECT_PROTOTYPE_KEYS \<and>
   join_room init ''B'' ''constructor'' ''Bob'' 0 0 =
     Inr (init, [Callback ''B'' (Error ''Game already started'')]) \<and>
   join_room init ''B'' ''ZZZZZZ'' ''Bob'' 0 0 =
     Inr (init, [Callback ''B'' (Error ''Room not found'')])"
proof -
  have none: "map_of (rooms init) ''constructor'' = None" by (simp add: init_def)
  have key: "''constructor'' \<in> set OBJECT_PROTOTYPE_KEYS"
    by (simp add: OBJECT_PROTOTYPE_KEYS_def)
  have other: "join_room init ''B'' ''ZZZZZZ'' ''Bob'' 0 0 =
     Inr (init, [Callback ''B'' (Error ''Room not found'')])"
    by (simp add: init_def join_room_def lookup_room_def OBJECT_PROTOTYPE_KEYS_def)
  show ?thesis
    using join_room_inherited_name [OF none key, of "''B''" "''Bob''" 0 0] none key other
    by simp
qed

text \<open>
  What does hold of \<open>join_room\<close>: the three refusals are three different messages to
  the caller alone and leave the state as it is, the state is checked before the
  size, and no room ever has more than eight players.
\<close>

lemma join_room_refusals:
  "(lookup_room (rooms s) roomId = Undefined \<longrightarrow>
      join_room s sid roomId username i j = Inr (s, [Callback sid (Error ''Room not found'')]))
   \<and> (map_of (rooms s) roomId = Some room \<and> gameState room \<noteq> Waiting \<longrightarrow>
      join_room s sid roomId username i j = Inr (s, [Callback sid (Error ''Game already started'')]))
   \<and> (map_of (rooms s) roomId = Some room \<and> gameState room = Waiting \<and> 8 \<le> length (players room) \<longrightarrow>
      join_room s sid roomId username i j = Inr (s, [Callback sid (Error ''Room is full'')]))"
  by (simp add: join_room_def lookup_room_Some)

lemma at_most_eight_players:
  "reachable s \<Longrightarrow> map_of (rooms s) roomId = Some room \<Longrightarrow> length (players room) \<le> 8"
  using wfD [OF reachable_wf] unfolding room_inv_def by blast

lemma join_room_effect:
  assumes "reachable s" and "map_of (rooms s) roomId = Some room"
    and "gameState room = Waiting" and "length (players room) < 8"
  shows "\<exists>allPlayers.
     player_list (AList.update sid (newPlayer sid (playerName username i j)) (playerStates room))
       (players room @ [sid]) = Some allPlayers \<and>
     join_room s sid roomId username i j =
       Inr (\<lparr>rooms = AList.update roomId
               (room\<lparr>players := players room @ [sid],
                     playerStates := AList.update sid (newPlayer sid (playerName username i j))
                                       (playerStates room)\<rparr>) (rooms s),
             adapter = List.insert (roomId, sid) (adapter s)\<rparr>,
            [Callback sid (Joined roomId allPlayers), IoTo roomId (PlayerJoined allPlayers)])"
proof -
  have "room_inv (adapter s) roomId room"
    by (rule wfD [OF reachable_wf [OF assms(1)] assms(2)])
  then have "set (players room @ [sid])
      \<subseteq> fst ` set (AList.update sid (newPlayer sid (playerName username i j)) (playerStates room))"
    unfolding room_inv_def by (auto simp: AList.dom_update)
  then obtain allPlayers where
    "player_list (AList.update sid (newPlayer sid (playerName username i j)) (playerStates room))
       (players room @ [sid]) = Some allPlayers"
    using player_list_total by blast
  then show ?thesis
    using assms(2,3,4) by (simp add: join_room_def lookup_room_Some Let_def)
qed

text \<open>
  C7, as the code has it. The name stored for the player that \<open>create_room\<close> or an
  accepted \<open>join_room\<close> adds is the requested username as it was sent, untrimmed, if it
  is not the empty string, and a generated name if it is; a generated name is an
  adjective, a space and an animal, each from a list of ten different words.
\<close>

theorem stored_name_is_the_username_as_sent:
  "(\<exists>s' out room'.
      create_room s sid username roomId i j = Inr (s', out) \<and>
      map_of (rooms s') roomId = Some room' \<and>
      map_option name (map_of (playerStates room') sid)
        = Some (if username = [] then generateName i j else username))
   \<and> (reachable s \<and> map_of (rooms s) roomId = Some room \<and> gameState room = Waiting \<and>
       length (players room) < 8 \<longrightarrow>
       (\<exists>s' out room'.
          join_room s sid roomId username i j = Inr (s', out) \<and>
          map_of (rooms s') roomId = Some room' \<and>
          map_option name (map_of (playerStates room') sid)
            = Some (if username = [] then generateName i j else username)))
   \<and> (i < 10 \<and> j < 10 \<longrightarrow>
       (\<exists>adj animal. adj \<in> set ADJECTIVES \<and> animal \<in> set ANIMALS \<and>
          generateName i j = adj @ '' '' @ animal))
   \<and> length ADJECTIVES = 10 \<and> length ANIMALS = 10 \<and> distinct ADJECTIVES \<and> distinct ANIMALS"
proof (intro conjI impI)
  show "\<exists>s' out room'.
      create_room s sid username roomId i j = Inr (s', out) \<and>
      map_of (rooms s') roomId = Some room' \<and>
      map_option name (map_of (playerStates room') sid)
        = Some (if username = [] then generateName i j else username)"
    by (simp add: create_room_def Let_def AList.update_conv' newPlayer_def playerName_def)
next
  assume a: "reachable s \<and> map_of (rooms s) roomId = Some room \<and> gameState room = Waiting \<and>
       length (players room) < 8"
  then obtain allPlayers where
    "join_room s sid roomId username i j =
       Inr (\<lparr>rooms = AList.update roomId
               (room\<lparr>players := players room @ [sid],
                     playerStates := AList.update sid (newPlayer sid (playerName username i j))
                                       (playerStates room)\<rparr>) (rooms s),
             adapter = List.insert (roomId, sid) (adapter s)\<rparr>,
            [Callback sid (Joined roomId allPlayers), IoTo roomId (PlayerJoined allPlayers)])"
    using join_room_effect [of s roomId room sid username i j] by blast
  then show "\<exists>s' out room'.
          join_room s sid roomId username i j = Inr (s', out) \<and>
          map_of (rooms s') roomId = Some room' \<and>
          map_option name (map_of (playerStates room') sid)
            = Some (if username = [] then generateName i j else username)"
    by (simp add: AList.update_conv' newPlayer_def playerName_def)
next
  assume "i < 10 \<and> j < 10"
  moreover have "length ADJECTIVES = 10" "length ANIMALS = 10"
    by (simp_all add: ADJECTIVES_def ANIMALS_def)
  ultimately have "pick ADJECTIVES i \<in> set ADJECTIVES" "pick ANIMALS j \<in> set ANIMALS"
    by (simp_all add: pick_def)
  then show "\<exists>adj animal. adj \<in> set ADJECTIVES \<and> animal \<in> set ANIMALS \<and>
          generateName i j = adj @ '' '' @ animal"
    unfolding generateName_def by blast
qed (simp_all add: ADJECTIVES_def ANIMALS_def)

theorem stored_name_is_the_username_as_sent_witness:
  "(\<exists>s' out room'.
      create_room init ''A'' '' Ann '' ''R1'' 0 0 = Inr (s', out) \<and>
      map_of (rooms s') ''R1'' = Some room' \<and>
      map_option name (map_of (playerStates room') ''A'') = Some '' Ann '')
   \<and> reachable lobby \<and> map_of (rooms lobby) ''R1'' = Some lobby_room \<and>
     gameState lobby_room = Waiting \<and> length (players lobby_room) < 8
   \<and> (\<exists>s' out room'.
          join_room lobby ''C'' ''R1'' [] 9 4 = Inr (s', out) \<and>
          map_of (rooms s') ''R1'' = Some room' \<and>
          map_option name (map_of (playerStates room') ''C'') = Some ''Binary Cat'')
   \<and> (9::nat) < 10 \<and> (4::nat) < 10
   \<and> (\<exists>adj animal. adj \<in> set ADJECTIVES \<and> animal \<in> set ANIMALS \<and>
          generateName 9 4 = adj @ '' '' @ animal)"
proof -
  have waiting: "gameState lobby_room = Waiting" and room: "length (players lobby_room) < 8"
    by (simp_all add: lobby_room_def)
  have gen: "generateName 9 4 = ''Binary Cat''"
    by (simp add: generateName_def pick_def ADJECTIVES_def ANIMALS_def)
  note created = stored_name_is_the_username_as_sent
      [of init "''A''" "'' Ann ''" "''R1''" 0 0, THEN conjunct1]
  note joined = stored_name_is_the_username_as_sent
      [of lobby "''C''" "[]" "''R1''" 9 4 lobby_room, THEN conjunct2, THEN conjunct1, rule_format,
       OF conjI [OF reachable_lobby conjI [OF lobby_R1 conjI [OF waiting room]]]]
  note drawn = stored_name_is_the_username_as_sent
      [of init "''A''" "[]" "''R1''" 9 4, THEN conjunct2, THEN conjunct2, THEN conjunct1]
  show ?thesis
    using created joined drawn reachable_lobby lobby_R1 waiting room
    by (simp add: gen)
qed

text \<open>
  C7 as stated fails: a username with surrounding blanks is stored with them,
  where the specification's \<open>resolveName\<close> gives the trimmed name, and a username of
  blanks only is stored as it is, where \<open>resolveName\<close> gives a generated name.
\<close>

theorem stored_name_is_not_trimmed:
  "create_room init ''A'' '' Ann '' ''R1'' 0 0 =
     Inr (\<lparr>rooms = [(''R1'', \<lparr>id_room = ''R1'', players = [''A''], gameState = Waiting,
                              startArticle = None, targetArticle = None,
                              playerStates = [(''A'', \<lparr>id_ps = ''A'', name = '' Ann '', clicks = 0,
                                                       currentArticle = [], history = []\<rparr>)]\<rparr>)],
           adapter = [(''R1'', ''A'')]\<rparr>,
          [Callback ''A'' (Created ''R1'' [(''A'', '' Ann '')])]) \<and>
   spec_resolveName '' Ann '' 0 0 = ''Ann'' \<and>
   create_room init ''A'' ''  '' ''R1'' 0 0 =
     Inr (\<lparr>rooms = [(''R1'', \<lparr>id_room = ''R1'', players = [''A''], gameState = Waiting,
                              startArticle = None, targetArticle = None,
                              playerStates = [(''A'', \<lparr>id_ps = ''A'', name = ''  '', clicks = 0,
                                                       currentArticle = [], history = []\<rparr>)]\<rparr>)],
           adapter = [(''R1'', ''A'')]\<rparr>,
          [Callback ''A'' (Created ''R1'' [(''A'', ''  '')])]) \<and>
   spec_resolveName ''  '' 0 0 = ''Neon Fox'' \<and>
   playerName '' Ann '' 0 0 \<noteq> spec_resolveName '' Ann '' 0 0 \<and>
   playerName ''  '' 0 0 \<noteq> spec_resolveName ''  '' 0 0"
  by (simp add: init_def create_room_def playerName_def newPlayer_def Let_def
      spec_resolveName_def trim_def is_space_def generateName_def pick_def
      ADJECTIVES_def ANIMALS_def)

text \<open>
  What one event does to the stored \<open>clicks\<close> of a player who has a state in a room
  before and after it.
\<close>

lemma clicks_after_step:
  assumes "reachable s" and "step s e = Inr (s', out)"
    and "map_of (rooms s) roomId = Some room" and "map_of (playerStates room) pid = Some p"
    and "map_of (rooms s') roomId = Some room'" and "map_of (playerStates room') pid = Some p'"
  shows "clicks p' =
     (case e of
        UpdateProgress sid r article n \<Rightarrow>
          if sid = pid \<and> r = roomId \<and> gameState room = Playing then n else clicks p
      | StartGame sid r st tg \<Rightarrow>
          if r = roomId \<and> 2 \<le> length (players room) \<and> pid \<in> set (players room) then 0
          else clicks p
      | CreateRoom sid username r i j \<Rightarrow> if r = roomId then 0 else clicks p
      | JoinRoom sid r username i j \<Rightarrow>
          if sid = pid \<and> r = roomId \<and> gameState room = Waiting \<and> length (players room) < 8
          then 0 else clicks p
      | _ \<Rightarrow> clicks p)"
proof (cases e)
  case (Connection sid)
  then show ?thesis using assms by (auto simp: connection_def)
next
  case (CreateRoom sid username r i j)
  then show ?thesis
    using assms(2,3,4,5,6)
    by (auto simp: create_room_def Let_def AList.update_conv' newPlayer_def split: if_splits)
next
  case (JoinRoom sid r username i j)
  show ?thesis
  proof (cases "r = roomId")
    case True
    show ?thesis
    proof (cases "gameState room = Waiting \<and> length (players room) < 8")
      case accepted: True
      then obtain allPlayers where
        "join_room s sid roomId username i j =
           Inr (\<lparr>rooms = AList.update roomId
                   (room\<lparr>players := players room @ [sid],
                         playerStates := AList.update sid (newPlayer sid (playerName username i j))
                                           (playerStates room)\<rparr>) (rooms s),
                 adapter = List.insert (roomId, sid) (adapter s)\<rparr>,
                [Callback sid (Joined roomId allPlayers), IoTo roomId (PlayerJoined allPlayers)])"
        using join_room_effect [OF assms(1,3), of sid username i j] by blast
      then have "room' = room\<lparr>players := players room @ [sid],
          playerStates := AList.update sid (newPlayer sid (playerName username i j))
                            (playerStates room)\<rparr>"
        using assms(2,5) True JoinRoom by (auto simp: AList.update_conv')
      then show ?thesis
        using assms(4,6) True accepted JoinRoom
        by (auto simp: AList.update_conv' newPlayer_def split: if_splits)
    next
      case refused: False
      then have "s' = s"
        using assms(2,3) True JoinRoom
        by (auto simp: join_room_def lookup_room_Some split: if_splits)
      then show ?thesis using assms(3,4,5,6) True refused JoinRoom by auto
    qed
  next
    case False
    then have "map_of (rooms s') roomId = map_of (rooms s) roomId"
      using assms(2) JoinRoom
      by (auto simp: join_room_def Let_def AList.update_conv'
          split: room_lookup.splits if_splits option.splits)
    then show ?thesis using assms(3,4,5,6) False JoinRoom by simp
  qed
next
  case (StartGame sid r st tg)
  show ?thesis
  proof (cases "r = roomId \<and> 2 \<le> length (players room)")
    case True
    then have "room' = room\<lparr>startArticle := Some st, targetArticle := Some tg,
        gameState := Playing, playerStates := reset_stats st (players room) (playerStates room)\<rparr>"
      using assms(2,5) StartGame start_game_effect [OF assms(3), of sid st tg]
      by (auto simp: AList.update_conv')
    then show ?thesis
      using assms(4,6) True StartGame by (auto simp: reset_stats_map_of split: if_splits)
  next
    case False
    then have "map_of (rooms s') roomId = map_of (rooms s) roomId"
      using assms(2,3) StartGame
      by (auto simp: start_game_def Let_def AList.update_conv' lookup_room_Some
          split: room_lookup.splits if_splits)
    then show ?thesis using assms(3,4,5,6) False StartGame by auto
  qed
next
  case (UpdateProgress sid r article n)
  show ?thesis
  proof (cases "r = roomId \<and> gameState room = Playing")
    case True
    show ?thesis
    proof (cases "map_of (playerStates room) sid")
      case None
      then have "s' = s" and "sid \<noteq> pid"
        using assms(2,3,4) True UpdateProgress
        by (auto simp: update_progress_def lookup_room_Some)
      then show ?thesis using assms(3,4,5,6) UpdateProgress by simp
    next
      case (Some player)
      have "room' = room\<lparr>playerStates := AList.update sid
          (player\<lparr>currentArticle := article, clicks := n, history := history player @ [article]\<rparr>)
          (playerStates room)\<rparr>"
        using assms(2,5) True UpdateProgress
          update_progress_effect [OF assms(3) _ Some, of article n]
        by (auto simp: AList.update_conv')
      then show ?thesis
        using assms(4,6) True UpdateProgress
        by (auto simp: AList.update_conv' split: if_splits)
    qed
  next
    case False
    then have "map_of (rooms s') roomId = map_of (rooms s) roomId"
      using assms(2,3) UpdateProgress
      by (auto simp: update_progress_def Let_def AList.update_conv' lookup_room_Some
          split: room_lookup.splits if_splits option.splits)
    then show ?thesis using assms(3,4,5,6) False UpdateProgress by auto
  qed
next
  case (GameWin sid r path)
  then have "s' = s" using assms(2) game_win_state by simp
  then show ?thesis using assms(3,4,5,6) GameWin by simp
next
  case (ReturnToLobby sid r)
  then have "playerStates room' = playerStates room"
    using assms(2,3,5)
    by (auto simp: return_to_lobby_def AList.update_conv' lookup_room_Found_iff
        split: room_lookup.splits if_splits)
  then show ?thesis using assms(4,6) ReturnToLobby by simp
next
  case (Disconnect sid)
  then have d: "disconnect s sid = Inr (s', out)" using assms(2) by simp
  have "playerStates room' = playerStates room"
    using disconnect_keeps_player_states [OF assms(1) d assms(3,5)] .
  then show ?thesis using assms(4,6) Disconnect by simp
qed

text \<open>
  C8, as the code has it. For a player with a state in a room before and after an
  event, the stored \<open>clicks\<close> after the event is: the reported number, whatever it is,
  if the event is the player's own \<open>update_progress\<close> for the room and the room is
  playing (the handler stores it unchecked); 0 if the event is a \<open>start_game\<close> for the
  room that takes effect (at least two players) and the player is in \<open>players\<close>, be
  the room waiting or in the middle of a round; 0 if the event is a \<open>create_room\<close>
  that draws the room's code, which puts a new room with a new state in its place, or
  the player's own \<open>join_room\<close> accepted a second time, which writes a new state; and
  the value before the event in every other case. So within a round the value does
  not decrease from one event to the next if no report is below the stored value,
  and it is not negative if no report is; the server enforces neither.
\<close>

theorem clicks_follow_the_reports:
  assumes "reachable s" and "step s e = Inr (s', out)"
    and "map_of (rooms s) roomId = Some room" and "map_of (playerStates room) pid = Some p"
    and "map_of (rooms s') roomId = Some room'" and "map_of (playerStates room') pid = Some p'"
  shows "clicks p' =
       (case e of
          UpdateProgress sid r article n \<Rightarrow>
            if sid = pid \<and> r = roomId \<and> gameState room = Playing then n else clicks p
        | StartGame sid r st tg \<Rightarrow>
            if r = roomId \<and> 2 \<le> length (players room) \<and> pid \<in> set (players room) then 0
            else clicks p
        | CreateRoom sid username r i j \<Rightarrow> if r = roomId then 0 else clicks p
        | JoinRoom sid r username i j \<Rightarrow>
            if sid = pid \<and> r = roomId \<and> gameState room = Waiting \<and> length (players room) < 8
            then 0 else clicks p
        | _ \<Rightarrow> clicks p)
     \<and> (gameState room = Playing \<and>
         (\<forall>article n. e = UpdateProgress pid roomId article n \<longrightarrow> clicks p \<le> n) \<and>
         (\<forall>sid st tg. e \<noteq> StartGame sid roomId st tg) \<and>
         (\<forall>sid username i j. e \<noteq> CreateRoom sid username roomId i j) \<longrightarrow> clicks p \<le> clicks p')
     \<and> ((\<forall>article n. e = UpdateProgress pid roomId article n \<longrightarrow> 0 \<le> n) \<and> 0 \<le> clicks p
         \<longrightarrow> 0 \<le> clicks p')"
proof (intro conjI)
  note exact = clicks_after_step [OF assms]
  show "clicks p' =
       (case e of
          UpdateProgress sid r article n \<Rightarrow>
            if sid = pid \<and> r = roomId \<and> gameState room = Playing then n else clicks p
        | StartGame sid r st tg \<Rightarrow>
            if r = roomId \<and> 2 \<le> length (players room) \<and> pid \<in> set (players room) then 0
            else clicks p
        | CreateRoom sid username r i j \<Rightarrow> if r = roomId then 0 else clicks p
        | JoinRoom sid r username i j \<Rightarrow>
            if sid = pid \<and> r = roomId \<and> gameState room = Waiting \<and> length (players room) < 8
            then 0 else clicks p
        | _ \<Rightarrow> clicks p)"
    by (rule exact)
  show "gameState room = Playing \<and>
         (\<forall>article n. e = UpdateProgress pid roomId article n \<longrightarrow> clicks p \<le> n) \<and>
         (\<forall>sid st tg. e \<noteq> StartGame sid roomId st tg) \<and>
         (\<forall>sid username i j. e \<noteq> CreateRoom sid username roomId i j) \<longrightarrow> clicks p \<le> clicks p'"
    using exact by (cases e) (auto split: if_splits)
  show "(\<forall>article n. e = UpdateProgress pid roomId article n \<longrightarrow> 0 \<le> n) \<and> 0 \<le> clicks p
         \<longrightarrow> 0 \<le> clicks p'"
    using exact by (cases e) (auto split: if_splits)
qed

theorem clicks_follow_the_reports_witness:
  "reachable round_AB \<and>
   step round_AB (UpdateProgress ''B'' ''R1'' ''Cat'' 1) =
     Inr (midround, [SocketTo ''B'' ''R1'' (OpponentProgress ''B'' ''Mega Bear'' ''Cat'' 1)]) \<and>
   map_of (rooms round_AB) ''R1'' = Some round_room \<and> gameState round_room = Playing \<and>
   map_of (playerStates round_room) ''B'' =
     Some \<lparr>id_ps = ''B'', name = ''Mega Bear'', clicks = 0, currentArticle = ''Dog'',
           history = [''Dog'']\<rparr> \<and>
   map_of (rooms midround) ''R1'' = Some midround_room \<and>
   map_of (playerStates midround_room) ''B'' =
     Some \<lparr>id_ps = ''B'', name = ''Mega Bear'', clicks = 1, currentArticle = ''Cat'',
           history = [''Dog'', ''Cat'']\<rparr> \<and>
   clicks \<lparr>id_ps = ''B'', name = ''Mega Bear'', clicks = 1, currentArticle = ''Cat'',
           history = [''Dog'', ''Cat'']\<rparr> = 1 \<and>
   (\<exists>s' out room' p'.
      step midround (UpdateProgress ''A'' ''R1'' ''Cow'' 7) = Inr (s', out) \<and>
      map_of (rooms s') ''R1'' = Some room' \<and>
      map_of (playerStates room') ''B'' = Some p' \<and> clicks p' = 1) \<and>
   (\<exists>s' out room' p'.
      step midround (StartGame ''A'' ''R1'' ''Sun'' ''Moon'') = Inr (s', out) \<and>
      map_of (rooms s') ''R1'' = Some room' \<and>
      map_of (playerStates room') ''B'' = Some p' \<and> clicks p' = 0) \<and>
   reachable lobby_again \<and> map_of (rooms lobby_again) ''R1'' = Some lobby_again_room \<and>
   gameState lobby_again_room = Waiting \<and>
   map_option clicks (map_of (playerStates lobby_again_room) ''B'') = Some 1 \<and>
   (\<exists>s' out room' p'.
      step lobby_again (StartGame ''A'' ''R1'' ''Sun'' ''Moon'') = Inr (s', out) \<and>
      map_of (rooms s') ''R1'' = Some room' \<and>
      map_of (playerStates room') ''B'' = Some p' \<and> clicks p' = 0)"
proof -
  have playing: "gameState round_room = Playing" by (simp add: round_room_def)
  have before: "map_of (playerStates round_room) ''B'' =
     Some \<lparr>id_ps = ''B'', name = ''Mega Bear'', clicks = 0, currentArticle = ''Dog'',
           history = [''Dog'']\<rparr>"
    by (simp add: round_room_def)
  have after: "map_of (playerStates midround_room) ''B'' =
     Some \<lparr>id_ps = ''B'', name = ''Mega Bear'', clicks = 1, currentArticle = ''Cat'',
           history = [''Dog'', ''Cat'']\<rparr>"
    by (simp add: midround_room_def)
  have stored: "clicks \<lparr>id_ps = ''B'', name = ''Mega Bear'', clicks = 1, currentArticle = ''Cat'',
           history = [''Dog'', ''Cat'']\<rparr> = 1"
    using clicks_follow_the_reports
      [OF reachable_round_AB progress_round_AB round_R1 before midround_R1 after, THEN conjunct1]
      playing
    by simp
  have mid_playing: "gameState midround_room = Playing"
    and two: "2 \<le> length (players midround_room)"
    and member: "''B'' \<in> set (players midround_room)"
    and ann: "map_of (playerStates midround_room) ''A'' =
       Some \<lparr>id_ps = ''A'', name = ''Ann'', clicks = 0, currentArticle = ''Dog'',
             history = [''Dog'']\<rparr>"
    by (simp_all add: midround_room_def)
  have other: "\<exists>s' out room' p'.
      step midround (UpdateProgress ''A'' ''R1'' ''Cow'' 7) = Inr (s', out) \<and>
      map_of (rooms s') ''R1'' = Some room' \<and>
      map_of (playerStates room') ''B'' = Some p' \<and> clicks p' = 1"
  proof -
    define room' where "room' = midround_room\<lparr>playerStates := AList.update ''A''
      (\<lparr>id_ps = ''A'', name = ''Ann'', clicks = 0, currentArticle = ''Dog'',
        history = [''Dog'']\<rparr>\<lparr>currentArticle := ''Cow'', clicks := 7,
        history := [''Dog''] @ [''Cow'']\<rparr>) (playerStates midround_room)\<rparr>"
    define s' where "s' = midround\<lparr>rooms := AList.update ''R1'' room' (rooms midround)\<rparr>"
    have st: "step midround (UpdateProgress ''A'' ''R1'' ''Cow'' 7) =
        Inr (s', [SocketTo ''A'' ''R1'' (OpponentProgress ''A'' ''Ann'' ''Cow'' 7)])"
      using update_progress_effect [OF midround_R1 mid_playing ann, of "''Cow''" 7]
      by (simp add: s'_def room'_def)
    have look: "map_of (rooms s') ''R1'' = Some room'"
      by (simp add: s'_def AList.update_conv')
    obtain p' where p': "map_of (playerStates room') ''B'' = Some p'"
      using after by (simp add: room'_def AList.update_conv')
    have "clicks p' = 1"
      using clicks_follow_the_reports
        [OF reachable_midround st midround_R1 after look p', THEN conjunct1]
      by simp
    then show ?thesis using st look p' by blast
  qed
  have restart: "\<exists>s' out room' p'.
      step midround (StartGame ''A'' ''R1'' ''Sun'' ''Moon'') = Inr (s', out) \<and>
      map_of (rooms s') ''R1'' = Some room' \<and>
      map_of (playerStates room') ''B'' = Some p' \<and> clicks p' = 0"
  proof -
    define room' where "room' = midround_room\<lparr>startArticle := Some ''Sun'',
      targetArticle := Some ''Moon'', gameState := Playing,
      playerStates := reset_stats ''Sun'' (players midround_room) (playerStates midround_room)\<rparr>"
    define s' where "s' = midround\<lparr>rooms := AList.update ''R1'' room' (rooms midround)\<rparr>"
    have st: "step midround (StartGame ''A'' ''R1'' ''Sun'' ''Moon'') =
        Inr (s', [IoTo ''R1'' (GameStarted ''Sun'' ''Moon'')])"
      using start_game_effect [OF midround_R1 two, of "''A''" "''Sun''" "''Moon''"]
      by (simp add: s'_def room'_def)
    have look: "map_of (rooms s') ''R1'' = Some room'"
      by (simp add: s'_def AList.update_conv')
    obtain p' where p': "map_of (playerStates room') ''B'' = Some p'"
      using after member by (simp add: room'_def reset_stats_map_of)
    have "clicks p' = 0"
      using clicks_follow_the_reports
        [OF reachable_midround st midround_R1 after look p', THEN conjunct1] two member
      by simp
    then show ?thesis using st look p' by blast
  qed
  have waiting: "gameState lobby_again_room = Waiting"
    and two': "2 \<le> length (players lobby_again_room)"
    and member': "''B'' \<in> set (players lobby_again_room)"
    and left: "map_of (playerStates lobby_again_room) ''B'' =
       Some \<lparr>id_ps = ''B'', name = ''Mega Bear'', clicks = 1, currentArticle = ''Cat'',
             history = [''Dog'', ''Cat'']\<rparr>"
    by (simp_all add: lobby_again_room_def)
  have fresh: "\<exists>s' out room' p'.
      step lobby_again (StartGame ''A'' ''R1'' ''Sun'' ''Moon'') = Inr (s', out) \<and>
      map_of (rooms s') ''R1'' = Some room' \<and>
      map_of (playerStates room') ''B'' = Some p' \<and> clicks p' = 0"
  proof -
    define room' where "room' = lobby_again_room\<lparr>startArticle := Some ''Sun'',
      targetArticle := Some ''Moon'', gameState := Playing,
      playerStates := reset_stats ''Sun'' (players lobby_again_room)
                        (playerStates lobby_again_room)\<rparr>"
    define s' where "s' = lobby_again\<lparr>rooms := AList.update ''R1'' room' (rooms lobby_again)\<rparr>"
    have st: "step lobby_again (StartGame ''A'' ''R1'' ''Sun'' ''Moon'') =
        Inr (s', [IoTo ''R1'' (GameStarted ''Sun'' ''Moon'')])"
      using start_game_effect [OF lobby_again_R1 two', of "''A''" "''Sun''" "''Moon''"]
      by (simp add: s'_def room'_def)
    have look: "map_of (rooms s') ''R1'' = Some room'"
      by (simp add: s'_def AList.update_conv')
    obtain p' where p': "map_of (playerStates room') ''B'' = Some p'"
      using left member' by (simp add: room'_def reset_stats_map_of)
    have "clicks p' = 0"
      using clicks_follow_the_reports
        [OF reachable_lobby_again st lobby_again_R1 left look p', THEN conjunct1] two' member'
      by simp
    then show ?thesis using st look p' by blast
  qed
  have left': "map_option clicks (map_of (playerStates lobby_again_room) ''B'') = Some 1"
    using left by simp
  show ?thesis
    using reachable_round_AB progress_round_AB round_R1 playing before midround_R1 after
      stored other restart reachable_lobby_again lobby_again_R1 waiting left' fresh
    by (intro conjI)
qed

text \<open>
  C8 as stated fails: the client decides what is stored. After a report of 5 a
  report of -3 is stored as it is, so the value has decreased and is negative.
\<close>

theorem clicks_can_fall_below_zero:
  "clicks_after (round_events @ [UpdateProgress ''B'' ''R1'' ''Cat'' 5]) ''R1'' ''B'' = Some 5 \<and>
   clicks_after (round_events @ [UpdateProgress ''B'' ''R1'' ''Cat'' 5,
                                 UpdateProgress ''B'' ''R1'' ''Dog'' (- 3)]) ''R1'' ''B''
     = Some (- 3)"
  by (simp add: clicks_after_def round_events_def lobby_events_def init_def handler_defs Let_def)







lemma disconnect_leaves_every_room:
  assumes "reachable s" and "disconnect s sid = Inr (s', out)"
  shows "\<not> in_room s' sid k"
proof
  assume "in_room s' sid k"
  then obtain room' where room': "map_of (rooms s') k = Some room'"
    and x: "sid \<in> set (players room')"
    unfolding in_room_def by blast
  from room' disconnect_rooms_map_of [OF wf_distinct [OF reachable_wf [OF assms(1)]]
      disconnect_shape [OF assms(2), THEN conjunct1], of k]
  obtain room where "leave sid room = Some room'"
    by (auto split: option.splits)
  then show False using x by (auto simp: leave_def split: if_splits)
qed









end
